theory Spec2Isabelle
  imports Main "HOL-Library.Word" "HOL-Library.Signed_Division" "HOL-Library.Monad_Syntax"
begin

unbundle bit_operations_syntax

section \<open>Bucket accounting and disk reservations of bcachefs (buckets.c)\<close>

text \<open>
  A shallow embedding of the bucket-mark and disk-reservation code (the unnamed source
  part that starts "Code for manipulating bucket marks for garbage collection").

  Conventions.
  \<^item> C integers are machine words: \<open>u64\<close> and \<open>s64\<close> are both \<open>64 word\<close>; a signed
    comparison is written \<open><s\<close>, an unsigned one \<open><\<close>; a conversion between widths is
    \<open>ucast\<close> (zero extension or truncation).
  \<^item> A function whose C name starts with two underscores carries the prefix \<open>uu_\<close>.
  \<^item> A kernel trap (\<open>BUG_ON\<close> firing, a null or out-of-range dereference, a division by
    zero) is the value \<open>None\<close>; a function that returns normally returns \<open>Some\<close> of the
    state it leaves behind, together with its C return value where it has one.
  \<^item> The model is the build without \<open>DEBUG_BUCKETS\<close> and without
    \<open>CONFIG_BCACHEFS_DEBUG\<close>: the \<open>*_verify\<close> functions are the empty ones of the
    source's \<open>#else\<close> branch and \<open>EBUG_ON\<close> compiles to nothing.
  \<^item> One thread runs at a time: a compare-and-swap loop succeeds at its first attempt,
    and taking or asserting \<open>mark_lock\<close> has no effect on the state. The CPU the thread
    runs on is a parameter \<open>cpu\<close>; per-CPU data is a function of the CPU number, and
    \<open>for_each_possible_cpu\<close> ranges over \<open>[0..<nr_cpus]\<close>.
  \<^item> A usage structure (\<open>struct bch_fs_usage\<close>, \<open>struct bch_dev_usage\<close>) is what
    \<open>bch2_usage_add\<close> takes it for, an array of \<open>u64\<close> counters; the index type names
    each counter after its C field.
\<close>

subsection \<open>Types\<close>

type_synonym u8 = "8 word"
type_synonym u16 = "16 word"
type_synonym u32 = "32 word"
type_synonym u64 = "64 word"
type_synonym s64 = "64 word"

datatype bch_data_type =
  BCH_DATA_NONE | BCH_DATA_SB | BCH_DATA_JOURNAL | BCH_DATA_BTREE | BCH_DATA_USER | BCH_DATA_CACHED

text \<open>
  Modelled from the spec: \<open>struct bucket_mark\<close> is declared in a header that is not among
  the sources; the fields and their widths are those of the spec's table (section 3):
  gen 8, data_type 4 (an enum), owned_by_allocator 1, dirty_sectors 15, cached_sectors 15,
  stripe 1, journal_seq_valid 1, journal_seq the remaining 19 bits of the 64.
\<close>

record bucket_mark =
  gen :: u8
  data_type :: bch_data_type
  owned_by_allocator :: bool
  dirty_sectors :: "15 word"
  cached_sectors :: "15 word"
  stripe :: bool
  journal_seq_valid :: bool
  journal_seq :: "19 word"

text \<open>The counters of \<open>struct bch_fs_usage\<close>: \<open>s.*\<close>, \<open>replicas[r].*\<close> and \<open>buckets[t]\<close>.\<close>

datatype fs_counter =
  S_online_reserved | S_hidden | S_data | S_cached | S_reserved | S_nr_inodes
  | Replicas_data nat bch_data_type
  | Replicas_ec_data nat
  | Replicas_persistent_reserved nat
  | Fs_buckets bch_data_type

type_synonym bch_fs_usage = "fs_counter \<Rightarrow> u64"

text \<open>The counters of \<open>struct bch_dev_usage\<close>.\<close>

datatype dev_counter =
  Dev_buckets bch_data_type | Buckets_alloc | Buckets_ec | Buckets_unavailable
  | Dev_sectors bch_data_type | Sectors_fragmented

type_synonym bch_dev_usage = "dev_counter \<Rightarrow> u64"

text \<open>
  \<open>struct bucket_array\<close>: the table \<open>b[]\<close> of a device (here \<open>marks\<close>, one mark per
  bucket; \<open>nbuckets\<close> is its length) and its \<open>first_bucket\<close>.
\<close>

record bucket_array =
  first_bucket :: nat
  marks :: "bucket_mark list"

text \<open>
  \<open>struct bch_dev\<close>: \<open>mi.bucket_size\<close>, the two bucket tables \<open>buckets[gc]\<close>, the per-CPU
  usage shards \<open>usage[gc]\<close>, and the number of times \<open>bch2_wake_allocator\<close> was called on
  the device (the allocator thread itself is outside this code).
\<close>

record bch_dev =
  mi_bucket_size :: u16
  buckets :: "bool \<Rightarrow> bucket_array"
  dev_usage :: "bool \<Rightarrow> nat \<Rightarrow> bch_dev_usage"
  allocator_wakeups :: nat

text \<open>\<open>struct stripe\<close> of ec_types.h (\<open>heap_idx\<close> belongs to the stripes heap and is left out).\<close>

record stripe =
  stripe_sectors :: u16
  algorithm :: u8
  nr_blocks :: u8
  nr_redundant :: u8
  alive :: bool
  blocks_nonempty :: u32
  block_sectors :: "nat \<Rightarrow> u32"

definition EC_STRIPE_MAX :: nat where
  "EC_STRIPE_MAX = 16"

text \<open>Decoded extent entries: the pointer, its checksum entry and its stripe references.\<close>

record bch_extent_ptr =
  ptr_dev :: nat
  ptr_offset :: u64
  ptr_gen :: u8
  ptr_cached :: bool

record bch_extent_crc_unpacked =
  compression_type :: u8
  compressed_size :: u32
  uncompressed_size :: u32
  live_size :: u32

record bch_extent_stripe_ptr =
  ec_block :: nat
  ec_idx :: nat

record extent_ptr_decoded =
  crc :: bch_extent_crc_unpacked
  ptr :: bch_extent_ptr
  ec :: "bch_extent_stripe_ptr list"

text \<open>The value of a stripe key (\<open>struct bch_stripe\<close>), as far as \<open>bch2_mark_stripe\<close> reads it.\<close>

record bch_stripe =
  v_sectors :: u16
  v_algorithm :: u8
  v_nr_blocks :: u8
  v_nr_redundant :: u8
  v_ptrs :: "bch_extent_ptr list"

text \<open>
  A key as \<open>__bch2_mark_key\<close> dispatches on it: its type and what the marking code reads
  of its value (for a stripe key also \<open>k.k->p.offset\<close>, the stripe's index).
\<close>

datatype bkey =
  KEY_TYPE_btree_ptr "extent_ptr_decoded list"
  | KEY_TYPE_extent "extent_ptr_decoded list"
  | KEY_TYPE_stripe nat bch_stripe
  | KEY_TYPE_alloc
  | KEY_TYPE_reservation u8
  | KEY_TYPE_other

record disk_reservation =
  res_sectors :: u64
  res_gen :: u32
  res_nr_replicas :: u32

text \<open>
  \<open>struct bch_fs\<close>, as far as this code reads or writes it. \<open>gc_lock_contended\<close> says
  that another thread holds \<open>gc_lock\<close> for writing, so that \<open>down_read_trylock\<close> fails;
  \<open>fs_inconsistent\<close> records that \<open>bch2_fs_inconsistent_on\<close> reported an inconsistency.
\<close>

record bch_fs =
  capacity :: u64
  sectors_available :: u64
  pcpu_sectors_available :: "nat \<Rightarrow> u64"
  nr_cpus :: nat
  usage :: "bool \<Rightarrow> nat \<Rightarrow> bch_fs_usage"
  devs :: "bch_dev list"
  stripes :: "bool \<Rightarrow> nat \<Rightarrow> stripe option"
  gc_pos :: nat
  alloc_read_done :: bool
  opts_btree_node_size :: u16
  gc_lock_contended :: bool
  fs_inconsistent :: bool

text \<open>
  The inline helpers of buckets.h and extents.h that the code calls and the sources do
  not contain. The spec does not fix them, so they are parameters of the model: every
  theorem below holds for whatever these functions are.
  \<open>ptr_disk_sectors_of p n\<close> stands for \<open>__ptr_disk_sectors(p, n)\<close>, and \<open>PTR_BUCKET_NR\<close>
  takes the device's \<open>mi.bucket_size\<close>, which is all it reads of the device.
\<close>

record buckets_h =
  is_available_bucket :: "bucket_mark \<Rightarrow> bool"
  bucket_sectors_used :: "bucket_mark \<Rightarrow> u32"
  PTR_BUCKET_NR :: "u16 \<Rightarrow> bch_extent_ptr \<Rightarrow> nat"
  ptr_stale :: "bch_dev \<Rightarrow> bch_extent_ptr \<Rightarrow> bool"
  ptr_disk_sectors_of :: "extent_ptr_decoded \<Rightarrow> u32 \<Rightarrow> u32"
  ptr_disk_sectors :: "extent_ptr_decoded \<Rightarrow> u32"

subsection \<open>Flags and constants\<close>

text \<open>
  The flag bits are declared in headers that are not among the sources; the code only
  tests them, so any two distinct bits do.
\<close>

definition BCH_BUCKET_MARK_NOATOMIC :: u32 where
  "BCH_BUCKET_MARK_NOATOMIC = 1"

definition BCH_BUCKET_MARK_GC :: u32 where
  "BCH_BUCKET_MARK_GC = 2"

definition BCH_DISK_RESERVATION_NOFAIL :: u32 where
  "BCH_DISK_RESERVATION_NOFAIL = 1"

definition BCH_DISK_RESERVATION_GC_LOCK_HELD :: u32 where
  "BCH_DISK_RESERVATION_GC_LOCK_HELD = 2"

definition BCH_DISK_RESERVATION_BTREE_LOCKS_HELD :: u32 where
  "BCH_DISK_RESERVATION_BTREE_LOCKS_HELD = 4"

definition BCH_REPLICAS_MAX :: u32 where
  "BCH_REPLICAS_MAX = 4"

definition RESERVE_FACTOR :: nat where
  "RESERVE_FACTOR = 6"

definition SECTORS_CACHE :: u64 where
  "SECTORS_CACHE = 1024"

definition EINTR :: int where
  "EINTR = 4"

definition ENOSPC :: int where
  "ENOSPC = 28"

subsection \<open>Kernel macros\<close>

text \<open>
  Modelled from the spec: \<open>round_up(x, y)\<close> for a power of two \<open>y\<close> is the kernel's
  \<open>((x - 1) | (y - 1)) + 1\<close>, written out on 64-bit words.
\<close>

definition round_up :: "u64 \<Rightarrow> u64 \<Rightarrow> u64" where
  "round_up x y = ((x - 1) OR (y - 1)) + 1"

text \<open>\<open>clamp_t(unsigned, v, lo, hi) = min(max(v, lo), hi)\<close>.\<close>

definition clamp_t :: "u32 \<Rightarrow> u32 \<Rightarrow> u32 \<Rightarrow> u32" where
  "clamp_t v lo hi = min (max v lo) hi"

text \<open>\<open>abs\<close> on an \<open>s64\<close>.\<close>

definition abs_s64 :: "s64 \<Rightarrow> s64" where
  "abs_s64 x = (if x <s 0 then - x else x)"

text \<open>
  \<open>DIV_ROUND_UP(n, d) = (n + d - 1) / d\<close> in \<open>s64\<close> arithmetic (C's division truncates
  towards zero); a zero divisor traps.
\<close>

definition DIV_ROUND_UP_s64 :: "s64 \<Rightarrow> s64 \<Rightarrow> s64 option" where
  "DIV_ROUND_UP_s64 n d =
     (if d = 0 then None else Some (word_of_int (sint (n + d - 1) sdiv sint d)))"

subsection \<open>Usage counters\<close>

text \<open>\<open>bch2_usage_add\<close>: add \<open>stats\<close> into \<open>acc\<close>, one 64-bit counter at a time.\<close>

definition bch2_usage_add :: "('i \<Rightarrow> u64) \<Rightarrow> ('i \<Rightarrow> u64) \<Rightarrow> ('i \<Rightarrow> u64)" where
  "bch2_usage_add acc stats = (\<lambda>i. acc i + stats i)"

text \<open>\<open>counters[i] += v\<close> on a usage structure (\<open>-=\<close> adds the negated value).\<close>

definition counter_add :: "('i \<Rightarrow> u64) \<Rightarrow> 'i \<Rightarrow> u64 \<Rightarrow> ('i \<Rightarrow> u64)" where
  "counter_add counters i v = counters(i := counters i + v)"

text \<open>\<open>bch2_usage_read_raw\<close>: the sum of the shards of all possible CPUs.\<close>

definition bch2_usage_read_raw :: "nat \<Rightarrow> (nat \<Rightarrow> 'i \<Rightarrow> u64) \<Rightarrow> ('i \<Rightarrow> u64)" where
  "bch2_usage_read_raw ncpus stats =
     fold (\<lambda>cpu acc. bch2_usage_add acc (stats cpu)) [0..<ncpus] (\<lambda>i. 0)"

definition bch2_fs_usage_read :: "bch_fs \<Rightarrow> bch_fs_usage" where
  "bch2_fs_usage_read c = bch2_usage_read_raw (nr_cpus c) (usage c False)"

definition uu_bch2_fs_usage_read :: "bch_fs \<Rightarrow> bool \<Rightarrow> bch_fs_usage" where
  "uu_bch2_fs_usage_read c gc = bch2_usage_read_raw (nr_cpus c) (usage c gc)"

definition bch2_dev_usage_read :: "bch_fs \<Rightarrow> bch_dev \<Rightarrow> bch_dev_usage" where
  "bch2_dev_usage_read c ca = bch2_usage_read_raw (nr_cpus c) (dev_usage ca False)"

definition uu_bch2_dev_usage_read :: "bch_fs \<Rightarrow> bch_dev \<Rightarrow> bool \<Rightarrow> bch_dev_usage" where
  "uu_bch2_dev_usage_read c ca gc = bch2_usage_read_raw (nr_cpus c) (dev_usage ca gc)"

definition reserve_factor :: "u64 \<Rightarrow> u64" where
  "reserve_factor r = r + drop_bit RESERVE_FACTOR (round_up r (push_bit RESERVE_FACTOR 1))"

definition avail_factor :: "u64 \<Rightarrow> u64" where
  "avail_factor r = push_bit RESERVE_FACTOR r div (push_bit RESERVE_FACTOR 1 + 1)"

definition uu_bch2_fs_sectors_used :: "bch_fs \<Rightarrow> bch_fs_usage \<Rightarrow> u64" where
  "uu_bch2_fs_sectors_used c fs_usage =
     fs_usage S_hidden + fs_usage S_data
       + reserve_factor (fs_usage S_reserved + fs_usage S_online_reserved)"

definition bch2_fs_sectors_used :: "bch_fs \<Rightarrow> bch_fs_usage \<Rightarrow> u64" where
  "bch2_fs_sectors_used c fs_usage = min (capacity c) (uu_bch2_fs_sectors_used c fs_usage)"

record bch_fs_usage_short =
  short_capacity :: u64
  short_used :: u64
  short_nr_inodes :: u64

definition bch2_fs_usage_read_short :: "bch_fs \<Rightarrow> bch_fs_usage_short" where
  "bch2_fs_usage_read_short c =
     (let u = bch2_usage_read_raw (nr_cpus c) (usage c False);
          cap = capacity c - u S_hidden
      in \<lparr> short_capacity = cap,
           short_used = min cap (u S_data + reserve_factor (u S_reserved + u S_online_reserved)),
           short_nr_inodes = u S_nr_inodes \<rparr>)"

text \<open>
  Modelled from the spec: \<open>bch2_fs_sectors_free\<close> is an inline function of buckets.h, which
  is not among the sources. The spec has the pool recomputed "from the summed usage
  counters via \<open>avail_factor(free_sectors)\<close>"; the free sectors are the capacity of the
  short usage view less what it reports used.
\<close>

definition bch2_fs_sectors_free :: "bch_fs \<Rightarrow> u64" where
  "bch2_fs_sectors_free c =
     (let u = bch2_fs_usage_read_short c in short_capacity u - short_used u)"

text \<open>
  Modelled from the spec: \<open>gc_visited\<close> is an inline function of btree_gc.h, which is not
  among the sources. Positions are numbered in the order GC sweeps them; a position is
  visited when GC's cursor \<open>gc_pos\<close> has reached or passed it.
\<close>

definition gc_visited :: "bch_fs \<Rightarrow> nat \<Rightarrow> bool" where
  "gc_visited c pos = (pos \<le> gc_pos c)"

subsection \<open>Applying a transaction's usage delta\<close>

text \<open>
  \<open>bch2_fs_usage_apply\<close>. \<open>disk_res\<close> is a pointer that may be null: \<open>None\<close> is the null
  pointer, and the branch that writes through it traps when it is null. The result is
  the filesystem, the delta (zeroed by the final \<open>memset\<close>) and the reservation.
\<close>

definition bch2_fs_usage_apply ::
  "bch_fs \<Rightarrow> nat \<Rightarrow> bch_fs_usage \<Rightarrow> disk_reservation option \<Rightarrow> nat
     \<Rightarrow> (bch_fs \<times> bch_fs_usage \<times> disk_reservation option) option" where
  "bch2_fs_usage_apply c cpu fs_usage disk_res pos =
     (let added = fs_usage S_data + fs_usage S_reserved;
          should_not_have_added =
            added - (case disk_res of Some r \<Rightarrow> res_sectors r | None \<Rightarrow> 0);
          warn = (0 <s should_not_have_added);
          c1 = (if warn
                then c\<lparr>sectors_available := sectors_available c - should_not_have_added\<rparr>
                else c);
          added1 = (if warn then added - should_not_have_added else added)
      in do {
        (disk_res', fs_usage1) \<leftarrow>
          (if 0 <s added1
           then (case disk_res of
                   None \<Rightarrow> None
                 | Some r \<Rightarrow>
                     Some (Some (r\<lparr>res_sectors := res_sectors r - added1\<rparr>),
                           fs_usage (S_online_reserved := fs_usage S_online_reserved - added1)))
           else Some (disk_res, fs_usage));
        let c2 = c1\<lparr>usage := (usage c1)
                   (False := (usage c1 False)
                      (cpu := bch2_usage_add (usage c1 False cpu) fs_usage1))\<rparr>;
        let c3 = (if gc_visited c2 pos
                  then c2\<lparr>usage := (usage c2)
                         (True := (usage c2 True)
                            (cpu := bch2_usage_add (usage c2 True cpu) fs_usage1))\<rparr>
                  else c2);
        Some (c3, (\<lambda>i. 0), disk_res')
      })"

subsection \<open>Disk reservations\<close>

text \<open>\<open>bch2_recalc_sectors_available\<close>: the filesystem with every CPU's cache zeroed, and the
  recomputed number of available sectors.\<close>

definition bch2_recalc_sectors_available :: "bch_fs \<Rightarrow> bch_fs \<times> u64" where
  "bch2_recalc_sectors_available c =
     (let c' = fold (\<lambda>cpu c. c\<lparr>pcpu_sectors_available := (pcpu_sectors_available c)(cpu := 0)\<rparr>)
                 [0..<nr_cpus c] c
      in (c', avail_factor (bch2_fs_sectors_free c')))"

definition uu_bch2_disk_reservation_put ::
  "bch_fs \<Rightarrow> nat \<Rightarrow> disk_reservation \<Rightarrow> bch_fs \<times> disk_reservation" where
  "uu_bch2_disk_reservation_put c cpu res =
     (c\<lparr>usage := (usage c)
          (False := (usage c False)
             (cpu := (usage c False cpu)
                (S_online_reserved := usage c False cpu S_online_reserved - res_sectors res)))\<rparr>,
      res\<lparr>res_sectors := 0\<rparr>)"

text \<open>
  \<open>bch2_disk_reservation_add\<close>. \<open>cpu\<close> is the CPU the caller runs on while it holds
  \<open>mark_lock\<close> for reading; \<open>cpu'\<close> is the CPU it runs on in the \<open>recalculate\<close> part, after
  it has dropped that lock (preemption is enabled in between). The result is the
  filesystem, the reservation and the return value.
\<close>

definition reservation_out ::
  "bch_fs \<Rightarrow> nat \<Rightarrow> disk_reservation \<Rightarrow> u32 \<Rightarrow> bch_fs \<times> disk_reservation \<times> int" where
  "reservation_out c cpu res sectors =
     (c\<lparr>pcpu_sectors_available := (pcpu_sectors_available c)
           (cpu := pcpu_sectors_available c cpu - ucast sectors),
        usage := (usage c)
          (False := (usage c False)
             (cpu := (usage c False cpu)
                (S_online_reserved := usage c False cpu S_online_reserved + ucast sectors)))\<rparr>,
      res\<lparr>res_sectors := res_sectors res + ucast sectors\<rparr>,
      0)"

definition reservation_recalculate ::
  "bch_fs \<Rightarrow> nat \<Rightarrow> disk_reservation \<Rightarrow> u32 \<Rightarrow> u32 \<Rightarrow> bch_fs \<times> disk_reservation \<times> int" where
  "reservation_recalculate c cpu' res sectors flags =
     (if flags AND BCH_DISK_RESERVATION_GC_LOCK_HELD = 0
         \<and> flags AND BCH_DISK_RESERVATION_BTREE_LOCKS_HELD \<noteq> 0
         \<and> gc_lock_contended c
      then (c, res, - EINTR)
      else
        (let (c1, sectors_avail) = bch2_recalc_sectors_available c
         in if ucast sectors \<le>s sectors_avail \<or> flags AND BCH_DISK_RESERVATION_NOFAIL \<noteq> 0
            then
              (c1\<lparr>sectors_available :=
                     (if sectors_avail - ucast sectors <s 0 then 0
                      else sectors_avail - ucast sectors),
                  usage := (usage c1)
                    (False := (usage c1 False)
                       (cpu' := (usage c1 False cpu')
                          (S_online_reserved :=
                             usage c1 False cpu' S_online_reserved + ucast sectors)))\<rparr>,
               res\<lparr>res_sectors := res_sectors res + ucast sectors\<rparr>,
               0)
            else (c1\<lparr>sectors_available := sectors_avail\<rparr>, res, - ENOSPC)))"

definition bch2_disk_reservation_add ::
  "bch_fs \<Rightarrow> nat \<Rightarrow> nat \<Rightarrow> disk_reservation \<Rightarrow> u32 \<Rightarrow> u32
     \<Rightarrow> bch_fs \<times> disk_reservation \<times> int" where
  "bch2_disk_reservation_add c cpu cpu' res sectors flags =
     (if ucast sectors \<le> pcpu_sectors_available c cpu
      then reservation_out c cpu res sectors
      else
        (let old = sectors_available c;
             get = min (ucast sectors + SECTORS_CACHE) old
         in if get < ucast sectors
            then reservation_recalculate c cpu' res sectors flags
            else reservation_out
                   (c\<lparr>sectors_available := old - get,
                      pcpu_sectors_available := (pcpu_sectors_available c)
                        (cpu := pcpu_sectors_available c cpu + get)\<rparr>)
                   cpu res sectors))"

subsection \<open>Bucket marks and device usage\<close>

text \<open>
  Modelled from the spec: \<open>gen_cmp\<close> and \<open>gen_after\<close> are inline functions of buckets.h,
  which is not among the sources. The spec has generations compared modulo 256 with a
  wraparound-aware "after": the difference of the two generations read as a signed byte,
  and zero when that is not positive.
\<close>

definition gen_cmp :: "u8 \<Rightarrow> u8 \<Rightarrow> int" where
  "gen_cmp x y = sint (x - y)"

definition gen_after :: "u8 \<Rightarrow> u8 \<Rightarrow> int" where
  "gen_after x y = (let r = gen_cmp x y in if 0 < r then r else 0)"

definition is_unavailable_bucket :: "buckets_h \<Rightarrow> bucket_mark \<Rightarrow> bool" where
  "is_unavailable_bucket H m = (\<not> is_available_bucket H m)"

definition is_fragmented_bucket :: "buckets_h \<Rightarrow> bucket_mark \<Rightarrow> bch_dev \<Rightarrow> int" where
  "is_fragmented_bucket H m ca =
     (if \<not> owned_by_allocator m \<and> data_type m = BCH_DATA_USER \<and> bucket_sectors_used H m \<noteq> 0
      then max 0 (sint (ucast (mi_bucket_size ca) - bucket_sectors_used H m))
      else 0)"

definition bucket_type :: "bucket_mark \<Rightarrow> bch_data_type" where
  "bucket_type m =
     (if cached_sectors m \<noteq> 0 \<and> dirty_sectors m = 0 then BCH_DATA_CACHED else data_type m)"

definition bucket_became_unavailable :: "buckets_h \<Rightarrow> bucket_mark \<Rightarrow> bucket_mark \<Rightarrow> bool" where
  "bucket_became_unavailable H old new =
     (is_available_bucket H old \<and> \<not> is_available_bucket H new)"

definition account_bucket ::
  "bch_fs_usage \<Rightarrow> bch_dev_usage \<Rightarrow> bch_data_type \<Rightarrow> u64 \<Rightarrow> u64 \<Rightarrow> bch_fs_usage \<times> bch_dev_usage" where
  "account_bucket fs_usage du t nr sz =
     (counter_add
        (if t = BCH_DATA_SB \<or> t = BCH_DATA_JOURNAL then counter_add fs_usage S_hidden sz
         else fs_usage)
        (Fs_buckets t) sz,
      counter_add du (Dev_buckets t) nr)"

text \<open>
  A device is named by its index in \<open>c->devs\<close> (what \<open>bch_dev_bkey_exists\<close> looks up);
  an index with no device is an invalid pointer, and using it traps.
\<close>

definition bch_dev_bkey_exists :: "bch_fs \<Rightarrow> nat \<Rightarrow> bch_dev option" where
  "bch_dev_bkey_exists c dev = (if dev < length (devs c) then Some (devs c ! dev) else None)"

text \<open>
  Modelled from the spec: \<open>__bucket(ca, b, gc)\<close> is an inline function of buckets.h. The
  table has a \<open>first_bucket\<close> offset and a length (spec, section 3); a bucket number
  outside them traps.
\<close>

definition uu_bucket :: "bch_dev \<Rightarrow> nat \<Rightarrow> bool \<Rightarrow> bucket_mark option" where
  "uu_bucket ca b gc =
     (let ba = buckets ca gc
      in if b < first_bucket ba \<or> length (marks ba) \<le> b then None else Some (marks ba ! b))"

text \<open>The store \<open>g->_mark = new\<close> for the bucket \<open>g = __bucket(ca, b, gc)\<close> of device \<open>dev\<close>.\<close>

definition set_bucket_mark :: "bch_fs \<Rightarrow> nat \<Rightarrow> nat \<Rightarrow> bool \<Rightarrow> bucket_mark \<Rightarrow> bch_fs" where
  "set_bucket_mark c dev b gc new =
     (let ca = devs c ! dev;
          ba = buckets ca gc
      in c\<lparr>devs := (devs c)
            [dev := ca\<lparr>buckets := (buckets ca)(gc := ba\<lparr>marks := (marks ba)[b := new]\<rparr>)\<rparr>]\<rparr>)"

text \<open>The store through \<open>this_cpu_ptr(c->usage[gc])\<close>.\<close>

definition set_this_cpu_usage :: "bch_fs \<Rightarrow> bool \<Rightarrow> nat \<Rightarrow> bch_fs_usage \<Rightarrow> bch_fs" where
  "set_this_cpu_usage c gc cpu fs_usage =
     c\<lparr>usage := (usage c)(gc := (usage c gc)(cpu := fs_usage))\<rparr>"

text \<open>
  The counter arithmetic of \<open>bch2_dev_usage_update\<close>: what the function adds to
  \<open>fs_usage\<close> and to the device's shard \<open>dev_usage = this_cpu_ptr(ca->usage[gc])\<close> when a
  bucket's mark goes from \<open>old\<close> to \<open>new\<close>.
\<close>

definition dev_usage_counters ::
  "buckets_h \<Rightarrow> bch_dev \<Rightarrow> bch_fs_usage \<Rightarrow> bch_dev_usage \<Rightarrow> bucket_mark \<Rightarrow> bucket_mark
     \<Rightarrow> bch_fs_usage \<times> bch_dev_usage" where
  "dev_usage_counters H ca fs_usage du old new =
     (let (fu1, du1) = (if bucket_type old \<noteq> BCH_DATA_NONE
                        then account_bucket fs_usage du (bucket_type old)
                               (- 1) (- ucast (mi_bucket_size ca))
                        else (fs_usage, du));
          (fu2, du2) = (if bucket_type new \<noteq> BCH_DATA_NONE
                        then account_bucket fu1 du1 (bucket_type new)
                               1 (ucast (mi_bucket_size ca))
                        else (fu1, du1));
          du3 = counter_add du2 Buckets_alloc
                  (of_bool (owned_by_allocator new) - of_bool (owned_by_allocator old));
          du4 = counter_add du3 Buckets_ec (of_bool (stripe new) - of_bool (stripe old));
          du5 = counter_add du4 Buckets_unavailable
                  (of_bool (is_unavailable_bucket H new) - of_bool (is_unavailable_bucket H old));
          du6 = counter_add du5 (Dev_sectors (data_type old)) (- ucast (dirty_sectors old));
          du7 = counter_add du6 (Dev_sectors (data_type new)) (ucast (dirty_sectors new));
          du8 = counter_add du7 (Dev_sectors BCH_DATA_CACHED)
                  (ucast (cached_sectors new) - ucast (cached_sectors old));
          du9 = counter_add du8 Sectors_fragmented
                  (word_of_int (is_fragmented_bucket H new ca - is_fragmented_bucket H old ca))
      in (fu2, du9))"

text \<open>
  \<open>bch2_dev_usage_update\<close>. \<open>fs_usage\<close> is passed and returned by value: the C function
  writes it through a pointer that never points into the device.
  \<open>bch2_fs_inconsistent_on\<close> raises the filesystem's inconsistency flag when its condition
  holds, and \<open>bch2_wake_allocator\<close> is counted once when the bucket became available.
\<close>

definition bch2_dev_usage_update ::
  "buckets_h \<Rightarrow> bch_fs \<Rightarrow> nat \<Rightarrow> nat \<Rightarrow> bch_fs_usage \<Rightarrow> bucket_mark \<Rightarrow> bucket_mark \<Rightarrow> bool
     \<Rightarrow> bch_fs \<times> bch_fs_usage" where
  "bch2_dev_usage_update H c cpu dev fs_usage old new gc =
     (let ca = devs c ! dev;
          r = dev_usage_counters H ca fs_usage (dev_usage ca gc cpu) old new;
          ca' = ca\<lparr>dev_usage := (dev_usage ca)(gc := (dev_usage ca gc)(cpu := snd r)),
                   allocator_wakeups :=
                     allocator_wakeups ca
                       + of_bool (\<not> is_available_bucket H old \<and> is_available_bucket H new)\<rparr>
      in (c\<lparr>fs_inconsistent :=
               (fs_inconsistent c
                \<or> (data_type old \<noteq> BCH_DATA_NONE \<and> data_type new \<noteq> BCH_DATA_NONE
                     \<and> data_type old \<noteq> data_type new)),
             devs := (devs c)[dev := ca']\<rparr>,
          fst r))"

text \<open>
  \<open>bucket_data_cmpxchg\<close>: \<open>bucket_cmpxchg\<close> (read the mark, apply \<open>expr\<close> to a copy, store
  it) followed by \<open>bch2_dev_usage_update\<close>; the value is the old mark. \<open>expr\<close> may trap.
\<close>

definition bucket_data_cmpxchg ::
  "buckets_h \<Rightarrow> bch_fs \<Rightarrow> nat \<Rightarrow> nat \<Rightarrow> nat \<Rightarrow> bool \<Rightarrow> bch_fs_usage
     \<Rightarrow> (bucket_mark \<Rightarrow> bucket_mark option)
     \<Rightarrow> (bch_fs \<times> bch_fs_usage \<times> bucket_mark) option" where
  "bucket_data_cmpxchg H c cpu dev b gc fs_usage expr =
     do {
       ca \<leftarrow> bch_dev_bkey_exists c dev;
       old \<leftarrow> uu_bucket ca b gc;
       new \<leftarrow> expr old;
       let (c', fs_usage') =
         bch2_dev_usage_update H (set_bucket_mark c dev b gc new) cpu dev fs_usage old new gc;
       Some (c', fs_usage', old)
     }"

subsection \<open>Allocator and metadata buckets\<close>

definition uu_bch2_mark_alloc_bucket ::
  "buckets_h \<Rightarrow> bch_fs \<Rightarrow> nat \<Rightarrow> nat \<Rightarrow> nat \<Rightarrow> bool \<Rightarrow> bool \<Rightarrow> bch_fs option" where
  "uu_bch2_mark_alloc_bucket H c cpu dev b owned gc =
     do {
       (c', fs_usage', old) \<leftarrow>
         bucket_data_cmpxchg H c cpu dev b gc (usage c gc cpu)
           (\<lambda>m. Some (m\<lparr>owned_by_allocator := owned\<rparr>));
       if \<not> gc \<and> \<not> owned \<and> \<not> owned_by_allocator old then None
       else Some (set_this_cpu_usage c' gc cpu fs_usage')
     }"

definition bch2_mark_alloc_bucket ::
  "buckets_h \<Rightarrow> bch_fs \<Rightarrow> nat \<Rightarrow> nat \<Rightarrow> nat \<Rightarrow> bool \<Rightarrow> nat \<Rightarrow> u32 \<Rightarrow> bch_fs option" where
  "bch2_mark_alloc_bucket H c cpu dev b owned pos flags =
     do {
       c1 \<leftarrow> (if flags AND BCH_BUCKET_MARK_GC = 0
              then uu_bch2_mark_alloc_bucket H c cpu dev b owned False
              else Some c);
       if flags AND BCH_BUCKET_MARK_GC \<noteq> 0 \<or> gc_visited c1 pos
       then uu_bch2_mark_alloc_bucket H c1 cpu dev b owned True
       else Some c1
     }"

text \<open>
  \<open>checked_add(a, b)\<close> on a 15-bit field: the sum is taken in \<open>unsigned\<close> (32 bits, a wider
  \<open>b\<close> truncated), stored back into the field, and \<open>BUG_ON\<close> fires when the field no longer
  holds the sum.
\<close>

definition checked_add :: "15 word \<Rightarrow> 'b::len word \<Rightarrow> 15 word option" where
  "checked_add a b =
     (let res = (ucast a + ucast b :: u32);
          a' = (ucast res :: 15 word)
      in if ucast a' \<noteq> res then None else Some a')"

definition uu_bch2_mark_metadata_bucket ::
  "buckets_h \<Rightarrow> bch_fs \<Rightarrow> nat \<Rightarrow> nat \<Rightarrow> nat \<Rightarrow> bch_data_type \<Rightarrow> u32 \<Rightarrow> bool \<Rightarrow> bch_fs option" where
  "uu_bch2_mark_metadata_bucket H c cpu dev b t sectors gc =
     (if t \<noteq> BCH_DATA_SB \<and> t \<noteq> BCH_DATA_JOURNAL then None
      else do {
        (c', fu1, old) \<leftarrow>
          bucket_data_cmpxchg H c cpu dev b gc (usage c gc cpu)
            (\<lambda>m. do {
               d \<leftarrow> checked_add (dirty_sectors m) sectors;
               Some (m\<lparr>data_type := t, dirty_sectors := d\<rparr>)
             });
        let fu2 = (if t = BCH_DATA_BTREE \<or> t = BCH_DATA_USER
                   then counter_add fu1 S_data (ucast sectors) else fu1);
        let fu3 = counter_add fu2 (Replicas_data 0 t) (ucast sectors);
        Some (set_this_cpu_usage c' gc cpu fu3)
      })"

text \<open>
  \<open>bch2_mark_metadata_bucket\<close>. \<open>have_c\<close> is false when the caller passes \<open>c = NULL\<close>
  (a device that is not yet part of a filesystem): then only the live bucket mark of
  the device is written and no usage is touched.
\<close>

definition bch2_mark_metadata_bucket ::
  "buckets_h \<Rightarrow> bool \<Rightarrow> bch_fs \<Rightarrow> nat \<Rightarrow> nat \<Rightarrow> nat \<Rightarrow> bch_data_type \<Rightarrow> u32 \<Rightarrow> nat \<Rightarrow> u32
     \<Rightarrow> bch_fs option" where
  "bch2_mark_metadata_bucket H have_c c cpu dev b t sectors pos flags =
     (if t \<noteq> BCH_DATA_SB \<and> t \<noteq> BCH_DATA_JOURNAL then None
      else if have_c then
        do {
          c1 \<leftarrow> (if flags AND BCH_BUCKET_MARK_GC = 0
                 then uu_bch2_mark_metadata_bucket H c cpu dev b t sectors False
                 else Some c);
          if flags AND BCH_BUCKET_MARK_GC \<noteq> 0 \<or> gc_visited c1 pos
          then uu_bch2_mark_metadata_bucket H c1 cpu dev b t sectors True
          else Some c1
        }
      else
        do {
          ca \<leftarrow> bch_dev_bkey_exists c dev;
          old \<leftarrow> uu_bucket ca b False;
          d \<leftarrow> checked_add (dirty_sectors old) sectors;
          Some (set_bucket_mark c dev b False (old\<lparr>data_type := t, dirty_sectors := d\<rparr>))
        })"

subsection \<open>Marking a pointer\<close>

definition ptr_disk_sectors_delta :: "buckets_h \<Rightarrow> extent_ptr_decoded \<Rightarrow> s64 \<Rightarrow> s64 option" where
  "ptr_disk_sectors_delta H p delta =
     (if 0 <s delta then Some (ucast (ptr_disk_sectors_of H p (ucast delta)))
      else if ucast (live_size (crc p)) <s - delta then None
      else Some (ucast (ptr_disk_sectors_of H p (live_size (crc p) + ucast delta))
                   - ucast (ptr_disk_sectors H p)))"

text \<open>
  The body of the compare-and-swap loop of \<open>bch2_mark_pointer\<close> after the generation
  check: the new mark computed from the mark read. Either checked add may trap.
\<close>

definition mark_pointer_new ::
  "bucket_mark \<Rightarrow> bool \<Rightarrow> s64 \<Rightarrow> bch_data_type \<Rightarrow> u32 \<Rightarrow> bucket_mark option" where
  "mark_pointer_new old is_cached sectors dtype jseq =
     do {
       new1 \<leftarrow> (if \<not> is_cached
                 then map_option (\<lambda>d. old\<lparr>dirty_sectors := d\<rparr>)
                        (checked_add (dirty_sectors old) sectors)
                 else map_option (\<lambda>d. old\<lparr>cached_sectors := d\<rparr>)
                        (checked_add (cached_sectors old) sectors));
       Some (if dirty_sectors new1 = 0 \<and> cached_sectors new1 = 0
             then (if jseq \<noteq> 0
                   then new1\<lparr>data_type := BCH_DATA_NONE, journal_seq_valid := True,
                             journal_seq := ucast jseq\<rparr>
                   else new1\<lparr>data_type := BCH_DATA_NONE\<rparr>)
             else new1\<lparr>data_type := dtype\<rparr>)
     }"

text \<open>
  \<open>bch2_mark_pointer\<close>. A pointer whose generation the bucket's has passed returns at
  once, before any store (and traps when the alloc btree has not been read). With one
  thread the \<open>NOATOMIC\<close> store and the compare-and-swap store the same mark.
\<close>

definition bch2_mark_pointer ::
  "buckets_h \<Rightarrow> bch_fs \<Rightarrow> nat \<Rightarrow> extent_ptr_decoded \<Rightarrow> s64 \<Rightarrow> bch_data_type \<Rightarrow> bch_fs_usage
     \<Rightarrow> u32 \<Rightarrow> u32 \<Rightarrow> bool \<Rightarrow> (bch_fs \<times> bch_fs_usage) option" where
  "bch2_mark_pointer H c cpu p sectors dtype fs_usage jseq flags gc =
     do {
       ca \<leftarrow> bch_dev_bkey_exists c (ptr_dev (ptr p));
       let b = PTR_BUCKET_NR H (mi_bucket_size ca) (ptr p);
       old \<leftarrow> uu_bucket ca b gc;
       if gen_after (gen old) (ptr_gen (ptr p)) \<noteq> 0
       then (if \<not> alloc_read_done c then None else Some (c, fs_usage))
       else do {
         new \<leftarrow> mark_pointer_new old (ptr_cached (ptr p)) sectors dtype jseq;
         let r = bch2_dev_usage_update H (set_bucket_mark c (ptr_dev (ptr p)) b gc new) cpu
                   (ptr_dev (ptr p)) fs_usage old new gc;
         if \<not> gc \<and> bucket_became_unavailable H old new then None else Some r
       }
     }"

subsection \<open>Stripe references and extents\<close>

text \<open>
  The stripes heap belongs to the erasure-coding code, which is not among the sources;
  \<open>bch2_stripes_heap_update\<close> moves a stripe inside the heap and changes nothing that
  this code reads.

  Modelled from the spec: \<open>bch2_stripes_heap_insert\<close> and \<open>bch2_stripes_heap_del\<close> "create
  or retire" the stripe record, that is, set and clear \<open>alive\<close> (as the GC branch of
  \<open>bch2_mark_stripe\<close> does itself).
\<close>

definition bch2_stripes_heap_update :: "stripe \<Rightarrow> stripe" where
  "bch2_stripes_heap_update m = m"

definition bch2_stripes_heap_insert :: "stripe \<Rightarrow> stripe" where
  "bch2_stripes_heap_insert m = m\<lparr>alive := True\<rparr>"

definition bch2_stripes_heap_del :: "stripe \<Rightarrow> stripe" where
  "bch2_stripes_heap_del m = m\<lparr>alive := False\<rparr>"

definition set_stripe :: "bch_fs \<Rightarrow> bool \<Rightarrow> nat \<Rightarrow> stripe \<Rightarrow> bch_fs" where
  "set_stripe c gc idx m = c\<lparr>stripes := (stripes c)(gc := (stripes c gc)(idx \<mapsto> m))\<rparr>"

text \<open>
  \<open>bch2_mark_stripe_ptr\<close>: the filesystem, \<open>*adjusted_disk_sectors\<close>, \<open>*redundancy\<close> and
  the return value. The code adds to \<open>m->block_sectors[p.block]\<close> without comparing
  \<open>p.block\<close> with \<open>EC_STRIPE_MAX\<close> and carries on; the model keeps one counter for
  every block number.
\<close>

definition bch2_mark_stripe_ptr ::
  "buckets_h \<Rightarrow> bch_fs \<Rightarrow> bch_extent_stripe_ptr \<Rightarrow> s64 \<Rightarrow> u32 \<Rightarrow> s64 \<Rightarrow> u32 \<Rightarrow> bool
     \<Rightarrow> (bch_fs \<times> s64 \<times> u32 \<times> int) option" where
  "bch2_mark_stripe_ptr H c p sectors flags adjusted_disk_sectors redundancy gc =
     (case stripes c gc (ec_idx p) of
        None \<Rightarrow> Some (c, adjusted_disk_sectors, redundancy, - 1)
      | Some m \<Rightarrow>
          if \<not> alive m then Some (c, adjusted_disk_sectors, redundancy, - 1)
          else do {
            let nr_data = (ucast (nr_blocks m) - ucast (nr_redundant m) :: u32);
            parity \<leftarrow> DIV_ROUND_UP_s64 (abs_s64 sectors * ucast (nr_redundant m)) (ucast nr_data);
            let parity_sectors = (if sectors <s 0 then - parity else parity);
            let adj = adjusted_disk_sectors + parity_sectors;
            let red = max redundancy (ucast (nr_redundant m) + 1);
            let new = (block_sectors m (ec_block p) + ucast sectors :: u32);
            let old = (new - ucast sectors :: u32);
            let blocks_nonempty_delta = (of_bool (new \<noteq> 0) - of_bool (old \<noteq> 0) :: u32);
            let m1 = m\<lparr>block_sectors := (block_sectors m)(ec_block p := new)\<rparr>;
            if blocks_nonempty_delta = 0 then Some (set_stripe c gc (ec_idx p) m1, adj, red, 0)
            else do {
              let m2 = m1\<lparr>blocks_nonempty := blocks_nonempty m1 + blocks_nonempty_delta\<rparr>;
              if blocks_nonempty m2 <s 0 then None
              else Some (set_stripe c gc (ec_idx p)
                           (if \<not> gc then bch2_stripes_heap_update m2 else m2),
                         adj, red, 0)
            }
          })"

text \<open>The inner loop of \<open>bch2_mark_extent\<close> over \<open>p.ec[0 .. p.ec_nr)\<close>; it stops at the
  first stripe reference that fails.\<close>

fun mark_stripe_ptrs ::
  "buckets_h \<Rightarrow> bch_fs \<Rightarrow> bch_extent_stripe_ptr list \<Rightarrow> s64 \<Rightarrow> u32 \<Rightarrow> s64 \<Rightarrow> u32 \<Rightarrow> bool
     \<Rightarrow> (bch_fs \<times> s64 \<times> u32 \<times> int) option" where
  "mark_stripe_ptrs H c [] sectors flags adj red gc = Some (c, adj, red, 0)"
| "mark_stripe_ptrs H c (e # es) sectors flags adj red gc =
     do {
       (c1, adj1, red1, ret) \<leftarrow> bch2_mark_stripe_ptr H c e sectors flags adj red gc;
       if ret \<noteq> 0 then Some (c1, adj1, red1, ret)
       else mark_stripe_ptrs H c1 es sectors flags adj1 red1 gc
     }"

text \<open>The local accumulators of \<open>bch2_mark_extent\<close>.\<close>

record extent_acc =
  acc_cached_sectors :: s64
  acc_dirty_sectors :: s64
  acc_ec_sectors :: s64
  acc_replicas :: u32
  acc_ec_redundancy :: u32

text \<open>
  The end of an iteration of the loop of \<open>bch2_mark_extent\<close>: the pointer \<open>p\<close>, marked
  with \<open>adjusted_disk_sectors\<close>, is counted into the accumulators (\<open>redundancy\<close> is what
  the stripe references left in \<open>ec_redundancy\<close>).
\<close>

definition acc_add_ptr :: "extent_acc \<Rightarrow> extent_ptr_decoded \<Rightarrow> s64 \<Rightarrow> u32 \<Rightarrow> extent_acc" where
  "acc_add_ptr acc p adjusted_disk_sectors redundancy =
     acc\<lparr>acc_ec_redundancy := redundancy,
         acc_replicas := (if \<not> ptr_cached (ptr p) then acc_replicas acc + 1
                          else acc_replicas acc),
         acc_cached_sectors := (if ptr_cached (ptr p)
                                then acc_cached_sectors acc + adjusted_disk_sectors
                                else acc_cached_sectors acc),
         acc_dirty_sectors := (if \<not> ptr_cached (ptr p) \<and> ec p = []
                               then acc_dirty_sectors acc + adjusted_disk_sectors
                               else acc_dirty_sectors acc),
         acc_ec_sectors := (if \<not> ptr_cached (ptr p) \<and> ec p \<noteq> []
                            then acc_ec_sectors acc + adjusted_disk_sectors
                            else acc_ec_sectors acc)\<rparr>"

text \<open>The stripe references of a pointer: none are looked at for a cached pointer.\<close>

definition mark_ptr_stripes ::
  "buckets_h \<Rightarrow> bch_fs \<Rightarrow> extent_ptr_decoded \<Rightarrow> s64 \<Rightarrow> u32 \<Rightarrow> u32 \<Rightarrow> bool
     \<Rightarrow> (bch_fs \<times> s64 \<times> u32 \<times> int) option" where
  "mark_ptr_stripes H c p disk_sectors flags redundancy gc =
     (if \<not> ptr_cached (ptr p)
      then mark_stripe_ptrs H c (ec p) disk_sectors flags disk_sectors redundancy gc
      else Some (c, disk_sectors, redundancy, 0))"

text \<open>The sectors an extent's pointer is marked with: the key's for a btree node, scaled by
  \<open>ptr_disk_sectors_delta\<close> otherwise.\<close>

definition extent_disk_sectors ::
  "buckets_h \<Rightarrow> extent_ptr_decoded \<Rightarrow> s64 \<Rightarrow> bch_data_type \<Rightarrow> s64 option" where
  "extent_disk_sectors H p sectors dtype =
     (if dtype = BCH_DATA_BTREE then Some sectors else ptr_disk_sectors_delta H p sectors)"

text \<open>
  One iteration of the loop \<open>bkey_for_each_ptr_decode\<close> of \<open>bch2_mark_extent\<close>, for the
  decoded pointer \<open>p\<close>: the filesystem, \<open>fs_usage\<close>, the accumulators, and the value of
  \<open>ret\<close> (non-zero when a stripe reference failed and the function is about to return,
  before anything is accumulated).
\<close>

definition mark_extent_ptr ::
  "buckets_h \<Rightarrow> bch_fs \<Rightarrow> nat \<Rightarrow> extent_ptr_decoded \<Rightarrow> s64 \<Rightarrow> bch_data_type \<Rightarrow> bch_fs_usage
     \<Rightarrow> u32 \<Rightarrow> u32 \<Rightarrow> bool \<Rightarrow> extent_acc \<Rightarrow> (bch_fs \<times> bch_fs_usage \<times> extent_acc \<times> int) option" where
  "mark_extent_ptr H c cpu p sectors dtype fs_usage jseq flags gc acc =
     (case extent_disk_sectors H p sectors dtype of
        None \<Rightarrow> None
      | Some disk_sectors \<Rightarrow>
          (case bch2_mark_pointer H c cpu p disk_sectors dtype fs_usage jseq flags gc of
             None \<Rightarrow> None
           | Some (c1, fu1) \<Rightarrow>
               (case mark_ptr_stripes H c1 p disk_sectors flags (acc_ec_redundancy acc) gc of
                  None \<Rightarrow> None
                | Some (c2, adjusted_disk_sectors, redundancy, ret) \<Rightarrow>
                    Some (c2, fu1,
                          (if ret \<noteq> 0 then acc
                           else acc_add_ptr acc p adjusted_disk_sectors redundancy),
                          ret))))"

text \<open>The loop itself; it ends at the first pointer that leaves \<open>ret\<close> non-zero (the
  \<open>return ret\<close> in the middle of the loop).\<close>

fun mark_extent_ptrs ::
  "buckets_h \<Rightarrow> bch_fs \<Rightarrow> nat \<Rightarrow> extent_ptr_decoded list \<Rightarrow> s64 \<Rightarrow> bch_data_type \<Rightarrow> bch_fs_usage
     \<Rightarrow> u32 \<Rightarrow> u32 \<Rightarrow> bool \<Rightarrow> extent_acc \<Rightarrow> (bch_fs \<times> bch_fs_usage \<times> extent_acc \<times> int) option" where
  "mark_extent_ptrs H c cpu [] sectors dtype fs_usage jseq flags gc acc =
     Some (c, fs_usage, acc, 0)"
| "mark_extent_ptrs H c cpu (p # ps) sectors dtype fs_usage jseq flags gc acc =
     (case mark_extent_ptr H c cpu p sectors dtype fs_usage jseq flags gc acc of
        None \<Rightarrow> None
      | Some (c1, fu1, acc1, ret) \<Rightarrow>
          if ret \<noteq> 0 then Some (c1, fu1, acc1, ret)
          else mark_extent_ptrs H c1 cpu ps sectors dtype fu1 jseq flags gc acc1)"

text \<open>The accumulators of \<open>bch2_mark_extent\<close> as it initialises them.\<close>

definition acc0 :: extent_acc where
  "acc0 = \<lparr>acc_cached_sectors = 0, acc_dirty_sectors = 0, acc_ec_sectors = 0,
           acc_replicas = 0, acc_ec_redundancy = 0\<rparr>"

definition bch2_mark_extent ::
  "buckets_h \<Rightarrow> bch_fs \<Rightarrow> nat \<Rightarrow> extent_ptr_decoded list \<Rightarrow> s64 \<Rightarrow> bch_data_type \<Rightarrow> bch_fs_usage
     \<Rightarrow> u32 \<Rightarrow> u32 \<Rightarrow> bool \<Rightarrow> (bch_fs \<times> bch_fs_usage \<times> int) option" where
  "bch2_mark_extent H c cpu ptrs sectors dtype fs_usage jseq flags gc =
     (if sectors = 0 then None
      else do {
        (c1, fu1, acc, ret) \<leftarrow>
          mark_extent_ptrs H c cpu ptrs sectors dtype fs_usage jseq flags gc acc0;
        if ret \<noteq> 0 then Some (c1, fu1, ret)
        else do {
          let replicas = clamp_t (acc_replicas acc) 1 BCH_REPLICAS_MAX;
          let ec_redundancy = clamp_t (acc_ec_redundancy acc) 1 BCH_REPLICAS_MAX;
          let fu2 = counter_add fu1 S_cached (acc_cached_sectors acc);
          let fu3 = counter_add fu2 (Replicas_data 0 BCH_DATA_CACHED) (acc_cached_sectors acc);
          let fu4 = counter_add fu3 S_data (acc_dirty_sectors acc);
          let fu5 = counter_add fu4 (Replicas_data (unat (replicas - 1)) dtype)
                      (acc_dirty_sectors acc);
          let fu6 = counter_add fu5 S_data (acc_ec_sectors acc);
          let fu7 = counter_add fu6 (Replicas_ec_data (unat (ec_redundancy - 1)))
                      (acc_ec_sectors acc);
          Some (c1, fu7, 0)
        }
      })"

subsection \<open>Stripe keys\<close>

text \<open>The loop of \<open>bucket_set_stripe\<close> over the stripe's block pointers.\<close>

fun bucket_set_stripe_ptrs ::
  "buckets_h \<Rightarrow> bch_fs \<Rightarrow> nat \<Rightarrow> bch_extent_ptr list \<Rightarrow> bool \<Rightarrow> bch_fs_usage \<Rightarrow> u64 \<Rightarrow> bool
     \<Rightarrow> (bch_fs \<times> bch_fs_usage) option" where
  "bucket_set_stripe_ptrs H c cpu [] enabled fs_usage jseq gc = Some (c, fs_usage)"
| "bucket_set_stripe_ptrs H c cpu (p # ps) enabled fs_usage jseq gc =
     do {
       ca \<leftarrow> bch_dev_bkey_exists c (ptr_dev p);
       let b = PTR_BUCKET_NR H (mi_bucket_size ca) p;
       if ptr_stale H ca p then None
       else do {
         (c1, fu1, old) \<leftarrow>
           bucket_data_cmpxchg H c cpu (ptr_dev p) b gc fs_usage
             (\<lambda>m. Some (if jseq \<noteq> 0
                         then m\<lparr>stripe := enabled, journal_seq_valid := True,
                                journal_seq := ucast jseq\<rparr>
                         else m\<lparr>stripe := enabled\<rparr>));
         if stripe old = enabled then None
         else bucket_set_stripe_ptrs H c1 cpu ps enabled fu1 jseq gc
       }
     }"

text \<open>\<open>bucket_set_stripe\<close>: the pointers \<open>v->ptrs[0 .. v->nr_blocks)\<close>; reading past the
  pointers the value holds traps.\<close>

definition bucket_set_stripe ::
  "buckets_h \<Rightarrow> bch_fs \<Rightarrow> nat \<Rightarrow> bch_stripe \<Rightarrow> bool \<Rightarrow> bch_fs_usage \<Rightarrow> u64 \<Rightarrow> bool
     \<Rightarrow> (bch_fs \<times> bch_fs_usage) option" where
  "bucket_set_stripe H c cpu v enabled fs_usage jseq gc =
     (if length (v_ptrs v) < unat (v_nr_blocks v) then None
      else bucket_set_stripe_ptrs H c cpu (take (unat (v_nr_blocks v)) (v_ptrs v))
             enabled fs_usage jseq gc)"

definition bch2_mark_stripe ::
  "buckets_h \<Rightarrow> bch_fs \<Rightarrow> nat \<Rightarrow> nat \<Rightarrow> bch_stripe \<Rightarrow> bool \<Rightarrow> bch_fs_usage \<Rightarrow> u64 \<Rightarrow> u32 \<Rightarrow> bool
     \<Rightarrow> (bch_fs \<times> bch_fs_usage \<times> int) option" where
  "bch2_mark_stripe H c cpu idx v inserting fs_usage jseq flags gc =
     (case stripes c gc idx of
        None \<Rightarrow> Some (c, fs_usage, - 1)
      | Some m \<Rightarrow>
          if \<not> inserting \<and> \<not> alive m then Some (c, fs_usage, - 1)
          else if inserting \<and> alive m then Some (c, fs_usage, - 1)
          else if blocks_nonempty m \<noteq> 0 then None
          else if list_ex (\<lambda>i. block_sectors m i \<noteq> 0) [0..<EC_STRIPE_MAX] then None
          else do {
            let m1 = (if inserting
                      then m\<lparr>stripe_sectors := v_sectors v, algorithm := v_algorithm v,
                             nr_blocks := v_nr_blocks v, nr_redundant := v_nr_redundant v\<rparr>
                      else m);
            let m2 = (if \<not> gc
                      then (if inserting then bch2_stripes_heap_insert m1
                            else bch2_stripes_heap_del m1)
                      else m1\<lparr>alive := inserting\<rparr>);
            (c', fs_usage') \<leftarrow>
              bucket_set_stripe H (set_stripe c gc idx m2) cpu v inserting fs_usage 0 gc;
            Some (c', fs_usage', 0)
          })"

subsection \<open>Marking a key\<close>

definition uu_bch2_mark_key ::
  "buckets_h \<Rightarrow> bch_fs \<Rightarrow> nat \<Rightarrow> bkey \<Rightarrow> bool \<Rightarrow> s64 \<Rightarrow> bch_fs_usage \<Rightarrow> u32 \<Rightarrow> u32 \<Rightarrow> bool
     \<Rightarrow> (bch_fs \<times> bch_fs_usage \<times> int) option" where
  "uu_bch2_mark_key H c cpu k inserting sectors fs_usage jseq flags gc =
     (case k of
        KEY_TYPE_btree_ptr ptrs \<Rightarrow>
          bch2_mark_extent H c cpu ptrs
            (if inserting then ucast (opts_btree_node_size c)
             else - ucast (opts_btree_node_size c))
            BCH_DATA_BTREE fs_usage jseq flags gc
      | KEY_TYPE_extent ptrs \<Rightarrow>
          bch2_mark_extent H c cpu ptrs sectors BCH_DATA_USER fs_usage jseq flags gc
      | KEY_TYPE_stripe idx v \<Rightarrow>
          bch2_mark_stripe H c cpu idx v inserting fs_usage (ucast jseq) flags gc
      | KEY_TYPE_alloc \<Rightarrow>
          Some (c,
                (if inserting then counter_add fs_usage S_nr_inodes 1
                 else counter_add fs_usage S_nr_inodes (- 1)),
                0)
      | KEY_TYPE_reservation nr_replicas \<Rightarrow>
          (let replicas = (ucast nr_replicas :: u32);
               sectors' = sectors * ucast replicas;
               replicas' = clamp_t replicas 1 BCH_REPLICAS_MAX
           in Some (c,
                    counter_add (counter_add fs_usage S_reserved sectors')
                      (Replicas_persistent_reserved (unat (replicas' - 1))) sectors',
                    0))
      | KEY_TYPE_other \<Rightarrow> Some (c, fs_usage, 0))"

text \<open>
  \<open>bch2_mark_key_locked\<close>. \<open>fs_usage\<close> is a pointer that may be null: with \<open>None\<close> the live
  pass writes this CPU's live shard \<open>c->usage[0]\<close>, otherwise the caller's structure
  (and the shard is left alone). The GC pass always writes this CPU's shard
  \<open>c->usage[1]\<close>. The result is the filesystem, the caller's structure and the return
  value.
\<close>

definition bch2_mark_key_locked ::
  "buckets_h \<Rightarrow> bch_fs \<Rightarrow> nat \<Rightarrow> bkey \<Rightarrow> bool \<Rightarrow> s64 \<Rightarrow> nat \<Rightarrow> bch_fs_usage option \<Rightarrow> u64 \<Rightarrow> u32
     \<Rightarrow> (bch_fs \<times> bch_fs_usage option \<times> int) option" where
  "bch2_mark_key_locked H c cpu k inserting sectors pos fs_usage jseq flags =
     do {
       (c1, fs_usage1, ret1) \<leftarrow>
         (if flags AND BCH_BUCKET_MARK_GC = 0
          then (case fs_usage of
                  Some fu \<Rightarrow>
                    map_option (\<lambda>(c', fu', ret). (c', Some fu', ret))
                      (uu_bch2_mark_key H c cpu k inserting sectors fu (ucast jseq) flags False)
                | None \<Rightarrow>
                    map_option (\<lambda>(c', fu', ret). (set_this_cpu_usage c' False cpu fu', None, ret))
                      (uu_bch2_mark_key H c cpu k inserting sectors (usage c False cpu)
                         (ucast jseq) flags False))
          else Some (c, fs_usage, 0));
       if ret1 \<noteq> 0 then Some (c1, fs_usage1, ret1)
       else if flags AND BCH_BUCKET_MARK_GC \<noteq> 0 \<or> gc_visited c1 pos
       then do {
         (c2, fu2, ret2) \<leftarrow>
           uu_bch2_mark_key H c1 cpu k inserting sectors (usage c1 True cpu)
             (ucast jseq) flags True;
         Some (set_this_cpu_usage c2 True cpu fu2, fs_usage1, ret2)
       }
       else Some (c1, fs_usage1, 0)
     }"

text \<open>\<open>bch2_mark_key\<close>: \<open>bch2_mark_key_locked\<close> between taking and dropping \<open>mark_lock\<close>.\<close>

definition bch2_mark_key ::
  "buckets_h \<Rightarrow> bch_fs \<Rightarrow> nat \<Rightarrow> bkey \<Rightarrow> bool \<Rightarrow> s64 \<Rightarrow> nat \<Rightarrow> bch_fs_usage option \<Rightarrow> u64 \<Rightarrow> u32
     \<Rightarrow> (bch_fs \<times> bch_fs_usage option \<times> int) option" where
  "bch2_mark_key H c cpu k inserting sectors pos fs_usage jseq flags =
     bch2_mark_key_locked H c cpu k inserting sectors pos fs_usage jseq flags"

subsection \<open>Concrete inputs\<close>

text \<open>
  An instance of the header's helpers, used where the model is evaluated on a concrete
  input: a bucket is available when the allocator does not own it and it holds no dirty
  sectors and no stripe; its used sectors are the dirty and the cached ones; a pointer's
  bucket is its offset divided by the bucket size; pointers are uncompressed, so a
  pointer's disk sectors are its live sectors.
\<close>

definition H0 :: buckets_h where
  "H0 = \<lparr> is_available_bucket =
            (\<lambda>m. \<not> owned_by_allocator m \<and> dirty_sectors m = 0 \<and> \<not> stripe m),
          bucket_sectors_used = (\<lambda>m. ucast (dirty_sectors m) + ucast (cached_sectors m)),
          PTR_BUCKET_NR = (\<lambda>bucket_size p. unat (ptr_offset p) div unat bucket_size),
          ptr_stale =
            (\<lambda>ca p. case uu_bucket ca (unat (ptr_offset p) div unat (mi_bucket_size ca)) False of
                       None \<Rightarrow> False
                     | Some m \<Rightarrow> gen_after (gen m) (ptr_gen p) \<noteq> 0),
          ptr_disk_sectors_of = (\<lambda>p n. n),
          ptr_disk_sectors = (\<lambda>p. live_size (crc p)) \<rparr>"

text \<open>A bucket on the allocator's hands (an open bucket) of generation \<open>g\<close>, and a bucket
  holding \<open>d\<close> dirty sectors of user data.\<close>

definition open_bucket :: "u8 \<Rightarrow> bucket_mark" where
  "open_bucket g =
     \<lparr> gen = g, data_type = BCH_DATA_NONE, owned_by_allocator = True, dirty_sectors = 0,
       cached_sectors = 0, stripe = False, journal_seq_valid = False, journal_seq = 0 \<rparr>"

definition user_bucket :: "u8 \<Rightarrow> 15 word \<Rightarrow> bucket_mark" where
  "user_bucket g d =
     \<lparr> gen = g, data_type = BCH_DATA_USER, owned_by_allocator = False, dirty_sectors = d,
       cached_sectors = 0, stripe = False, journal_seq_valid = False, journal_seq = 0 \<rparr>"

text \<open>A device of bucket size 512 whose live and GC tables hold the given marks, with all
  usage counters zero.\<close>

definition dev_of :: "bucket_mark list \<Rightarrow> bch_dev" where
  "dev_of ms =
     \<lparr> mi_bucket_size = 512,
       buckets = (\<lambda>gc. \<lparr> first_bucket = 0, marks = ms \<rparr>),
       dev_usage = (\<lambda>gc cpu i. 0),
       allocator_wakeups = 0 \<rparr>"

text \<open>The filesystem of the spec's scenarios: capacity 8192 sectors, one device, two CPUs,
  all counters and caches zero, the pool holding \<open>avail\<close> sectors, the alloc btree read.\<close>

definition fs_of :: "u64 \<Rightarrow> bucket_mark list \<Rightarrow> bch_fs" where
  "fs_of avail ms =
     \<lparr> capacity = 8192,
       sectors_available = avail,
       pcpu_sectors_available = (\<lambda>cpu. 0),
       nr_cpus = 2,
       usage = (\<lambda>gc cpu i. 0),
       devs = [dev_of ms],
       stripes = (\<lambda>gc idx. None),
       gc_pos = 0,
       alloc_read_done = True,
       opts_btree_node_size = 256,
       gc_lock_contended = False,
       fs_inconsistent = False \<rparr>"

text \<open>An uncompressed pointer into device 0 at sector \<open>off\<close>, for a key of \<open>n\<close> live sectors.\<close>

definition ptr_of :: "u64 \<Rightarrow> u8 \<Rightarrow> bool \<Rightarrow> u32 \<Rightarrow> bch_extent_stripe_ptr list \<Rightarrow> extent_ptr_decoded" where
  "ptr_of off g is_cached n es =
     \<lparr> crc = \<lparr> compression_type = 0, compressed_size = n, uncompressed_size = n, live_size = n \<rparr>,
       ptr = \<lparr> ptr_dev = 0, ptr_offset = off, ptr_gen = g, ptr_cached = is_cached \<rparr>,
       ec = es \<rparr>"

text \<open>A usage delta that holds \<open>n\<close> sectors of data and nothing else.\<close>

definition delta_of :: "u64 \<Rightarrow> bch_fs_usage" where
  "delta_of n = (\<lambda>i. 0)(S_data := n)"

text \<open>The spec's scenario S5: 100 sectors in the pool, and so much data on CPU 0's shard
  that recomputing the pool gives 90.\<close>

definition fs_full :: bch_fs where
  "fs_full =
     (fs_of 100 [])\<lparr>usage := (\<lambda>gc cpu. if \<not> gc \<and> cpu = 0 then delta_of 8100 else (\<lambda>i. 0))\<rparr>"

text \<open>A fresh reservation.\<close>

definition res0 :: disk_reservation where
  "res0 = \<lparr>res_sectors = 0, res_gen = 0, res_nr_replicas = 1\<rparr>"

text \<open>Scenario S1's filesystem with 1024 sectors in every CPU's cache.\<close>

definition fs_cached :: bch_fs where
  "fs_cached = (fs_of 8066 [])\<lparr>pcpu_sectors_available := (\<lambda>cpu. 1024)\<rparr>"

text \<open>A pool of 50 sectors that lags behind the counters: with 8039 sectors of data on CPU
  0's shard, recomputing the pool gives 150.\<close>

definition fs_behind :: bch_fs where
  "fs_behind =
     (fs_of 50 [])\<lparr>usage := (\<lambda>gc cpu. if \<not> gc \<and> cpu = 0 then delta_of 8039 else (\<lambda>i. 0))\<rparr>"

text \<open>The mark of bucket \<open>b\<close> of device \<open>dev\<close> in table \<open>gc\<close>, when there is one.\<close>

definition bucket_of :: "bch_fs \<Rightarrow> nat \<Rightarrow> nat \<Rightarrow> bool \<Rightarrow> bucket_mark option" where
  "bucket_of c dev b gc =
     (case bch_dev_bkey_exists c dev of None \<Rightarrow> None | Some ca \<Rightarrow> uu_bucket ca b gc)"

text \<open>The mark of a bucket in the filesystem a marking call returned, when it returned.\<close>

definition result_bucket :: "(bch_fs \<times> 'a) option \<Rightarrow> nat \<Rightarrow> nat \<Rightarrow> bool \<Rightarrow> bucket_mark option" where
  "result_bucket r dev b gc = (case r of None \<Rightarrow> None | Some x \<Rightarrow> bucket_of (fst x) dev b gc)"

text \<open>The sector count \<open>bch2_mark_pointer\<close> adds to: \<open>cached_sectors\<close> for a cached pointer,
  \<open>dirty_sectors\<close> otherwise.\<close>

definition ptr_sectors :: "extent_ptr_decoded \<Rightarrow> bucket_mark \<Rightarrow> 15 word" where
  "ptr_sectors p m = (if ptr_cached (ptr p) then cached_sectors m else dirty_sectors m)"

text \<open>An open bucket of generation 0 that already holds \<open>d\<close> dirty sectors of user data.\<close>

definition filling_bucket :: "15 word \<Rightarrow> bucket_mark" where
  "filling_bucket d = (open_bucket 0)\<lparr>data_type := BCH_DATA_USER, dirty_sectors := d\<rparr>"






text \<open>The spec's filesystem with one open bucket, and a user extent of 8 sectors with one
  pointer into that bucket.\<close>

definition one_bucket :: bch_fs where
  "one_bucket = fs_of 0 [open_bucket 0]"

definition user_extent :: bkey where
  "user_extent = KEY_TYPE_extent [ptr_of 0 0 False 8 []]"

subsection \<open>The live side and the GC side\<close>

text \<open>
  What the filesystem keeps twice, once for the running filesystem (\<open>gc\<close> false, the
  live side) and once for a GC pass (\<open>gc\<close> true): the usage shards \<open>c->usage[gc]\<close>, the
  stripes \<open>c->stripes[gc]\<close>, and of every device the bucket table \<open>ca->buckets[gc]\<close> and
  the usage shards \<open>ca->usage[gc]\<close>.
\<close>

definition side_of ::
  "bch_fs \<Rightarrow> bool
     \<Rightarrow> (nat \<Rightarrow> bch_fs_usage) \<times> (nat \<Rightarrow> stripe option) \<times> (bucket_array \<times> (nat \<Rightarrow> bch_dev_usage)) list" where
  "side_of c gc = (usage c gc, stripes c gc, map (\<lambda>ca. (buckets ca gc, dev_usage ca gc)) (devs c))"

text \<open>What the marking code reads of the filesystem and never writes.\<close>

definition fs_static :: "bch_fs \<Rightarrow> (nat \<times> nat \<times> bool \<times> u16 \<times> u16 list)" where
  "fs_static c =
     (nr_cpus c, gc_pos c, alloc_read_done c, opts_btree_node_size c, map mi_bucket_size (devs c))"

text \<open>\<open>c'\<close> differs from \<open>c\<close> at most on side \<open>gc\<close> (and in what belongs to neither side).\<close>

definition same_outside :: "bool \<Rightarrow> bch_fs \<Rightarrow> bch_fs \<Rightarrow> bool" where
  "same_outside gc c c' = (side_of c' (\<not> gc) = side_of c (\<not> gc) \<and> fs_static c' = fs_static c)"

text \<open>A counter of a CPU's shard in the filesystem a marking call returned, when it returned.\<close>

definition result_counter :: "bch_fs option \<Rightarrow> bool \<Rightarrow> nat \<Rightarrow> fs_counter \<Rightarrow> u64 option" where
  "result_counter r gc cpu i = (case r of None \<Rightarrow> None | Some c \<Rightarrow> Some (usage c gc cpu i))"

section \<open>Properties\<close>

subsection \<open>Reserve factor\<close>

lemma unat_or_le: "unat (x OR y) \<le> unat x + unat (y::'a::len word)"
proof -
  have "uint (x OR y) = uint x OR uint y" by (rule uint_or)
  moreover have "(uint x AND uint y) + (uint x OR uint y) = uint x + uint y"
    by (rule plus_and_or)
  moreover have "0 \<le> uint x AND uint y" by simp
  ultimately have "uint (x OR y) \<le> uint x + uint y" by linarith
  then show ?thesis unfolding uint_nat by linarith
qed

lemma unat_round_up_le:
  "unat (round_up r (push_bit RESERVE_FACTOR 1)) \<le> unat r + 63"
proof (cases "r = 0")
  case True
  then show ?thesis by (simp add: round_up_def RESERVE_FACTOR_def)
next
  case False
  then have r1: "unat (r - 1) = unat r - 1" and pos: "0 < unat r"
    by (simp_all add: unat_minus_one unat_gt_0)
  have "unat ((r - 1) OR 63) \<le> unat (r - 1) + unat (63 :: u64)"
    by (rule unat_or_le)
  then have le: "unat ((r - 1) OR 63) \<le> unat r - 1 + 63" using r1 by simp
  have "unat (((r - 1) OR 63) + 1) \<le> unat ((r - 1) OR 63) + 1"
    by (simp add: unat_word_ariths)
  with le pos show ?thesis
    by (simp add: round_up_def RESERVE_FACTOR_def)
qed

lemma unat_avail_factor: "unat (avail_factor x) = ((64 * unat x) mod 2 ^ 64) div 65"
  by (simp add: avail_factor_def RESERVE_FACTOR_def unat_div push_bit_eq_mult
      unat_word_ariths mult.commute)

lemma reserve_markup_bound: "(64 * (n + (n + 63) div 64)) div 65 \<le> (n::nat)"
proof -
  have "64 * ((n + 63) div 64) \<le> n + 63" by simp
  then have "64 * (n + (n + 63) div 64) < 65 * (n + 1)" by simp
  then show ?thesis
    by (simp add: less_mult_imp_div_less mult.commute less_Suc_eq_le [symmetric])
qed

text \<open>
  C9. For every 64-bit \<open>r\<close>, \<open>avail_factor (reserve_factor r) \<le> r\<close> (unsigned), with
  \<open>reserve_factor r = r + (round_up(r, 2^6) >> 6)\<close> and \<open>avail_factor r = (r << 6) / 65\<close>
  computed as the code computes them, in wrapping 64-bit arithmetic.
\<close>

theorem avail_factor_reserve_factor_le: "avail_factor (reserve_factor r) \<le> r"
proof (cases "unat r < 2 ^ 58")
  case False
  have "unat (avail_factor (reserve_factor r)) < 2 ^ 58"
    unfolding unat_avail_factor
    by (rule less_le_trans [where y = "2 ^ 64 div 65 + 1"])
      (simp_all add: div_le_mono less_Suc_eq_le)
  with False show ?thesis by (simp add: word_le_nat_alt)
next
  case True
  let ?ru = "round_up r (push_bit RESERVE_FACTOR 1)"
  have ru: "unat ?ru \<le> unat r + 63" by (rule unat_round_up_le)
  have d: "unat (drop_bit RESERVE_FACTOR ?ru) = unat ?ru div 64"
    by (simp add: unat_drop_bit_eq drop_bit_eq_div RESERVE_FACTOR_def unat_div)
  have "unat (reserve_factor r) \<le> unat r + unat (drop_bit RESERVE_FACTOR ?ru)"
    by (simp add: reserve_factor_def unat_word_ariths)
  moreover have "unat ?ru div 64 \<le> (unat r + 63) div 64"
    using ru by (rule div_le_mono)
  ultimately have rf: "unat (reserve_factor r) \<le> unat r + (unat r + 63) div 64"
    using d by linarith
  have "(64 * unat (reserve_factor r)) mod 2 ^ 64 \<le> 64 * unat (reserve_factor r)"
    by simp
  then have "unat (avail_factor (reserve_factor r)) \<le> (64 * unat (reserve_factor r)) div 65"
    unfolding unat_avail_factor by (rule div_le_mono)
  also have "\<dots> \<le> (64 * (unat r + (unat r + 63) div 64)) div 65"
    using rf by (intro div_le_mono) simp
  also have "\<dots> \<le> unat r" by (rule reserve_markup_bound)
  finally show ?thesis by (simp add: word_le_nat_alt)
qed

subsection \<open>Applying a usage delta without a reservation\<close>

text \<open>
  C10. When \<open>bch2_fs_usage_apply\<close> is called with a null reservation and the delta added
  sectors (\<open>data + reserved > 0\<close> as an \<open>s64\<close>), the call returns (the null pointer is
  not dereferenced: dereferencing it is the trap \<open>None\<close>), the whole added amount is
  subtracted from \<open>sectors_available\<close>, and the branch for legitimately added sectors is
  skipped: the live shard receives the delta as it was passed, \<open>online_reserved\<close> included.
\<close>

theorem fs_usage_apply_null_reservation:
  assumes "0 <s fs_usage S_data + fs_usage S_reserved"
  shows "map_option (\<lambda>(c', fu', r'). (sectors_available c', usage c' False cpu, fu', r'))
           (bch2_fs_usage_apply c cpu fs_usage None pos)
         = Some (sectors_available c - (fs_usage S_data + fs_usage S_reserved),
                 bch2_usage_add (usage c False cpu) fs_usage, (\<lambda>i. 0), None)"
  using assms by (simp add: bch2_fs_usage_apply_def Let_def gc_visited_def)


text \<open>The theorem at a delta of 100 data sectors.\<close>

theorem fs_usage_apply_null_reservation_witness:
  "0 <s delta_of 100 S_data + delta_of 100 S_reserved
   \<and> map_option (\<lambda>(c', fu', r'). (sectors_available c', usage c' False 0, fu', r'))
           (bch2_fs_usage_apply (fs_of 8066 []) 0 (delta_of 100) None 0)
         = Some (sectors_available (fs_of 8066 []) - (delta_of 100 S_data + delta_of 100 S_reserved),
                 bch2_usage_add (usage (fs_of 8066 []) False 0) (delta_of 100), (\<lambda>i. 0), None)"
proof -
  have h: "0 <s delta_of 100 S_data + delta_of 100 S_reserved"
    by (simp add: delta_of_def word_sless_alt)
  from h fs_usage_apply_null_reservation [OF h] show ?thesis by (rule conjI)
qed


subsection \<open>Disk reservations\<close>

lemma read_raw_sum:
  "bch2_usage_read_raw n stats i = (\<Sum>cpu<n. stats cpu i)"
proof -
  have "fold (\<lambda>cpu acc. bch2_usage_add acc (stats cpu)) [0..<n] a i = a i + (\<Sum>cpu<n. stats cpu i)" for a
    by (induction n arbitrary: a) (simp_all add: bch2_usage_add_def add.assoc)
  then show ?thesis by (simp add: bch2_usage_read_raw_def)
qed

lemma recalc_fold:
  "fold (\<lambda>cpu c. c\<lparr>pcpu_sectors_available := (pcpu_sectors_available c)(cpu := 0)\<rparr>) [0..<n] c
   = (c::bch_fs)\<lparr>pcpu_sectors_available := (\<lambda>i. if i < n then 0 else pcpu_sectors_available c i)\<rparr>"
proof -
  define F where "F = (\<lambda>cpu (c::bch_fs). c\<lparr>pcpu_sectors_available := (pcpu_sectors_available c)(cpu := 0)\<rparr>)"
  define g where "g = (\<lambda>n i. if i < n then 0 else pcpu_sectors_available c i)"
  have "fold F [0..<n] c = c\<lparr>pcpu_sectors_available := g n\<rparr>"
  proof (induction n)
    case 0
    then show ?case by (simp add: g_def)
  next
    case (Suc n)
    have "fold F [0..<Suc n] c = F n (fold F [0..<n] c)" by simp
    also have "\<dots> = F n (c\<lparr>pcpu_sectors_available := g n\<rparr>)" by (simp only: Suc.IH)
    also have "\<dots> = c\<lparr>pcpu_sectors_available := (g n)(n := 0)\<rparr>" by (simp add: F_def)
    also have "(g n)(n := 0) = g (Suc n)" by (auto simp: g_def fun_eq_iff)
    finally show ?case .
  qed
  then show ?thesis by (simp add: F_def g_def)
qed

lemma recalc_fst:
  "fst (bch2_recalc_sectors_available c)
   = c\<lparr>pcpu_sectors_available := (\<lambda>i. if i < nr_cpus c then 0 else pcpu_sectors_available c i)\<rparr>"
  by (simp add: bch2_recalc_sectors_available_def Let_def recalc_fold)


text \<open>
  C7. When \<open>bch2_disk_reservation_add\<close> misses the per-CPU cache, cannot withdraw
  \<open>sectors\<close> from the pool and so goes to \<open>recalculate\<close>, reaches the recomputation (the
  caller holds \<open>gc_lock\<close>, or may block for it, or \<open>down_read_trylock\<close> succeeds), the
  recomputed pool is still smaller than \<open>sectors\<close> and \<open>NOFAIL\<close> is not set, then the call
  returns \<open>-ENOSPC\<close>, the reservation and every usage shard are unchanged, the pool holds
  the recomputed value and every possible CPU's cache is zero.
\<close>

theorem reservation_add_nospace:
  assumes miss: "\<not> ucast sectors \<le> pcpu_sectors_available c cpu"
    and short: "min (ucast sectors + SECTORS_CACHE) (sectors_available c) < ucast sectors"
    and lock: "flags AND BCH_DISK_RESERVATION_GC_LOCK_HELD \<noteq> 0
               \<or> flags AND BCH_DISK_RESERVATION_BTREE_LOCKS_HELD = 0
               \<or> \<not> gc_lock_contended c"
    and still: "snd (bch2_recalc_sectors_available c) <s ucast sectors"
    and nofail: "flags AND BCH_DISK_RESERVATION_NOFAIL = 0"
  shows "(case bch2_disk_reservation_add c cpu cpu' res sectors flags of
            (c', res', ret) \<Rightarrow>
              ret = - ENOSPC \<and> res' = res \<and> usage c' = usage c
              \<and> sectors_available c' = snd (bch2_recalc_sectors_available c)
              \<and> list_all (\<lambda>i. pcpu_sectors_available c' i = 0) [0..<nr_cpus c'])"
proof -
  obtain c1 sa where r: "bch2_recalc_sectors_available c = (c1, sa)"
    by (cases "bch2_recalc_sectors_available c")
  have c1: "c1 = c\<lparr>pcpu_sectors_available := (\<lambda>i. if i < nr_cpus c then 0 else pcpu_sectors_available c i)\<rparr>"
    using recalc_fst [of c] r by simp
  have nle: "\<not> ucast sectors \<le>s sa" using still r by (simp add: word_sle_eq word_sless_alt)
  show ?thesis
    using miss short lock nofail nle r
    by (auto simp: bch2_disk_reservation_add_def reservation_recalculate_def Let_def c1 list_all_iff)
qed


lemma recalc_fs_full: "snd (bch2_recalc_sectors_available fs_full) = 90"
proof -
  have "bch2_usage_read_raw 2 (\<lambda>cpu. if cpu = 0 then delta_of 8100 else (\<lambda>i. 0)) = delta_of 8100"
    by (simp add: fun_eq_iff read_raw_sum lessThan_Suc numeral_2_eq_2)
  then show ?thesis
    by (simp add: bch2_recalc_sectors_available_def Let_def recalc_fold fs_full_def fs_of_def
        bch2_fs_sectors_free_def bch2_fs_usage_read_short_def delta_of_def reserve_factor_def
        round_up_def avail_factor_def RESERVE_FACTOR_def)
qed


text \<open>The theorem in the spec's scenario S5 (100 sectors in the pool, 200 asked for).\<close>

theorem reservation_add_nospace_witness:
  "\<not> ucast (200::u32) \<le> pcpu_sectors_available fs_full 0
   \<and> min (ucast (200::u32) + SECTORS_CACHE) (sectors_available fs_full) < ucast (200::u32)
   \<and> snd (bch2_recalc_sectors_available fs_full) <s ucast (200::u32)
   \<and> (0::u32) AND BCH_DISK_RESERVATION_NOFAIL = 0
   \<and> (case bch2_disk_reservation_add fs_full 0 1 \<lparr>res_sectors = 0, res_gen = 0, res_nr_replicas = 1\<rparr> 200 0 of
            (c', res', ret) \<Rightarrow>
              ret = - ENOSPC \<and> res' = \<lparr>res_sectors = 0, res_gen = 0, res_nr_replicas = 1\<rparr>
              \<and> usage c' = usage fs_full
              \<and> sectors_available c' = snd (bch2_recalc_sectors_available fs_full)
              \<and> list_all (\<lambda>i. pcpu_sectors_available c' i = 0) [0..<nr_cpus c'])"
proof -
  have miss: "\<not> ucast (200::u32) \<le> pcpu_sectors_available fs_full 0"
    by (simp add: fs_full_def fs_of_def)
  have short: "min (ucast (200::u32) + SECTORS_CACHE) (sectors_available fs_full) < ucast (200::u32)"
    by (simp add: fs_full_def fs_of_def SECTORS_CACHE_def)
  have lock: "(0::u32) AND BCH_DISK_RESERVATION_GC_LOCK_HELD \<noteq> 0
               \<or> (0::u32) AND BCH_DISK_RESERVATION_BTREE_LOCKS_HELD = 0
               \<or> \<not> gc_lock_contended fs_full"
    by simp
  have still: "snd (bch2_recalc_sectors_available fs_full) <s ucast (200::u32)"
    by (simp add: recalc_fs_full word_sless_alt)
  have nofail: "(0::u32) AND BCH_DISK_RESERVATION_NOFAIL = 0" by simp
  from reservation_add_nospace [OF miss short lock still nofail,
      where cpu' = 1 and res = "\<lparr>res_sectors = 0, res_gen = 0, res_nr_replicas = 1\<rparr>"]
    miss short still nofail
  show ?thesis by blast
qed

lemma sum_shard_change:
  fixes g h :: "nat \<Rightarrow> u64"
  assumes "k < n" and off: "\<And>cpu. cpu \<noteq> k \<Longrightarrow> h cpu = g cpu"
  shows "(\<Sum>cpu<n. h cpu) = (\<Sum>cpu<n. g cpu) - g k + h k"
proof -
  have fin: "finite {..<n}" and kin: "k \<in> {..<n}" using assms by simp_all
  have "(\<Sum>cpu<n. h cpu) = h k + (\<Sum>cpu\<in>{..<n} - {k}. h cpu)"
    by (rule sum.remove [OF fin kin])
  moreover have "(\<Sum>cpu\<in>{..<n} - {k}. h cpu) = (\<Sum>cpu\<in>{..<n} - {k}. g cpu)"
    by (rule sum.cong) (simp_all add: off)
  moreover have "(\<Sum>cpu<n. g cpu) = g k + (\<Sum>cpu\<in>{..<n} - {k}. g cpu)"
    by (rule sum.remove [OF fin kin])
  ultimately show ?thesis by simp
qed

lemma online_reserved_shard:
  assumes "cpu < nr_cpus c"
    and "usage c1 = (usage c)(False := (usage c False)(cpu := (usage c False cpu)(S_online_reserved := v)))"
    and "nr_cpus c1 = nr_cpus c"
  shows "bch2_fs_usage_read c1 S_online_reserved
         = bch2_fs_usage_read c S_online_reserved - usage c False cpu S_online_reserved + v"
proof -
  have "(\<Sum>i<nr_cpus c. usage c1 False i S_online_reserved)
        = (\<Sum>i<nr_cpus c. usage c False i S_online_reserved) - usage c False cpu S_online_reserved
          + usage c1 False cpu S_online_reserved"
    by (rule sum_shard_change) (simp_all add: assms)
  then show ?thesis by (simp add: bch2_fs_usage_read_def read_raw_sum assms)
qed

lemma reservation_out_online:
  assumes "cpu < nr_cpus c" "reservation_out c cpu res n = (c1, res1, ret)"
  shows "bch2_fs_usage_read c1 S_online_reserved = bch2_fs_usage_read c S_online_reserved + ucast n"
    and "res_sectors res1 = res_sectors res + ucast n" and "nr_cpus c1 = nr_cpus c"
    and "sectors_available c1 = sectors_available c"
proof -
  from assms(2) have u: "usage c1 = (usage c)(False := (usage c False)(cpu := (usage c False cpu)
         (S_online_reserved := usage c False cpu S_online_reserved + ucast n)))"
    and n: "nr_cpus c1 = nr_cpus c"
    by (auto simp: reservation_out_def)
  show "bch2_fs_usage_read c1 S_online_reserved = bch2_fs_usage_read c S_online_reserved + ucast n"
    using online_reserved_shard [OF assms(1) u n] by simp
  show "res_sectors res1 = res_sectors res + ucast n" "nr_cpus c1 = nr_cpus c"
    "sectors_available c1 = sectors_available c"
    using assms(2) by (auto simp: reservation_out_def)
qed


lemma put_online:
  assumes "cpu2 < nr_cpus c1" "uu_bch2_disk_reservation_put c1 cpu2 res1 = (c2, res2)"
  shows "bch2_fs_usage_read c2 S_online_reserved
           = bch2_fs_usage_read c1 S_online_reserved - res_sectors res1"
    and "res_sectors res2 = 0" and "sectors_available c2 = sectors_available c1"
proof -
  from assms(2) have u: "usage c2 = (usage c1)(False := (usage c1 False)(cpu2 := (usage c1 False cpu2)
         (S_online_reserved := usage c1 False cpu2 S_online_reserved - res_sectors res1)))"
    and n: "nr_cpus c2 = nr_cpus c1"
    by (auto simp: uu_bch2_disk_reservation_put_def)
  show "bch2_fs_usage_read c2 S_online_reserved
           = bch2_fs_usage_read c1 S_online_reserved - res_sectors res1"
    using online_reserved_shard [OF assms(1) u n] by simp
  show "res_sectors res2 = 0" "sectors_available c2 = sectors_available c1"
    using assms(2) by (auto simp: uu_bch2_disk_reservation_put_def)
qed

lemma recalculate_online:
  assumes "cpu' < nr_cpus c" "reservation_recalculate c cpu' res n flags = (c1, res1, 0)"
  shows "bch2_fs_usage_read c1 S_online_reserved = bch2_fs_usage_read c S_online_reserved + ucast n"
    and "res_sectors res1 = res_sectors res + ucast n" and "nr_cpus c1 = nr_cpus c"
proof -
  let ?c0 = "fst (bch2_recalc_sectors_available c)"
  have c0: "usage ?c0 = usage c" "nr_cpus ?c0 = nr_cpus c" by (simp_all add: recalc_fst)
  from assms(2) have u: "usage c1 = (usage c)(False := (usage c False)(cpu' := (usage c False cpu')
         (S_online_reserved := usage c False cpu' S_online_reserved + ucast n)))"
    and n: "nr_cpus c1 = nr_cpus c" and r: "res_sectors res1 = res_sectors res + ucast n"
    using c0
    by (auto simp: reservation_recalculate_def Let_def EINTR_def ENOSPC_def split_beta
        split: if_splits)
  show "bch2_fs_usage_read c1 S_online_reserved = bch2_fs_usage_read c S_online_reserved + ucast n"
    using online_reserved_shard [OF assms(1) u n] by simp
  show "res_sectors res1 = res_sectors res + ucast n" "nr_cpus c1 = nr_cpus c"
    by (rule r, rule n)
qed


lemma recalculate_pool:
  assumes "reservation_recalculate c cpu' res n flags = (c1, res1, 0)"
  shows "sectors_available c1
         = (if snd (bch2_recalc_sectors_available c) - ucast n <s 0 then 0
            else snd (bch2_recalc_sectors_available c) - ucast n)"
  using assms
  by (auto simp: reservation_recalculate_def Let_def EINTR_def ENOSPC_def split_beta
      split: if_splits)

text \<open>
  C6, as the code has it. A successful \<open>bch2_disk_reservation_add\<close> followed by
  \<open>__bch2_disk_reservation_put\<close> (possibly on another CPU) leaves \<open>res.sectors = 0\<close> and
  \<open>online_reserved\<close>, summed over the CPU shards, at its prior value less the sectors the
  reservation held before the add (its prior value for a fresh reservation). The put does
  not touch the global pool: the pool keeps the value the add left, which is the prior
  value when the add was served from the per-CPU cache, the prior value less
  \<open>min(sectors + SECTORS_CACHE, pool)\<close> when the add refilled the cache from the pool, and
  \<open>max(0, recomputed - sectors)\<close> when the add went through \<open>recalculate\<close>, where
  \<open>recomputed\<close> is what \<open>bch2_recalc_sectors_available\<close> returns.
\<close>

theorem reservation_add_put:
  assumes add: "bch2_disk_reservation_add c cpu cpu' res n flags = (c1, res1, 0)"
    and put: "uu_bch2_disk_reservation_put c1 cpu2 res1 = (c2, res2)"
    and cpus: "cpu < nr_cpus c" "cpu' < nr_cpus c" "cpu2 < nr_cpus c"
  shows "res_sectors res2 = 0
         \<and> bch2_fs_usage_read c2 S_online_reserved
             = bch2_fs_usage_read c S_online_reserved - res_sectors res
         \<and> sectors_available c2 = sectors_available c1
         \<and> sectors_available c1
             = (if ucast n \<le> pcpu_sectors_available c cpu then sectors_available c
                else if \<not> min (ucast n + SECTORS_CACHE) (sectors_available c) < ucast n
                then sectors_available c - min (ucast n + SECTORS_CACHE) (sectors_available c)
                else if snd (bch2_recalc_sectors_available c) - ucast n <s 0 then 0
                else snd (bch2_recalc_sectors_available c) - ucast n)"
proof -
  have a: "bch2_fs_usage_read c1 S_online_reserved = bch2_fs_usage_read c S_online_reserved + ucast n
           \<and> res_sectors res1 = res_sectors res + ucast n \<and> nr_cpus c1 = nr_cpus c"
  proof (cases "ucast n \<le> pcpu_sectors_available c cpu")
    case True
    with add have "reservation_out c cpu res n = (c1, res1, 0)"
      by (simp add: bch2_disk_reservation_add_def)
    from reservation_out_online [OF cpus(1) this] show ?thesis by simp
  next
    case False
    show ?thesis
    proof (cases "min (ucast n + SECTORS_CACHE) (sectors_available c) < ucast n")
      case True
      with False add have "reservation_recalculate c cpu' res n flags = (c1, res1, 0)"
        by (simp add: bch2_disk_reservation_add_def Let_def)
      from recalculate_online [OF cpus(2) this] show ?thesis by simp
    next
      case nshort: False
      let ?get = "min (ucast n + SECTORS_CACHE) (sectors_available c)"
      let ?c' = "c\<lparr>sectors_available := sectors_available c - ?get,
                    pcpu_sectors_available := (pcpu_sectors_available c)
                      (cpu := pcpu_sectors_available c cpu + ?get)\<rparr>"
      from False nshort add have o: "reservation_out ?c' cpu res n = (c1, res1, 0)"
        by (simp add: bch2_disk_reservation_add_def Let_def)
      have "cpu < nr_cpus ?c'" using cpus by simp
      from reservation_out_online [OF this o]
      show ?thesis by (simp add: bch2_fs_usage_read_def)
    qed
  qed
  have p: "cpu2 < nr_cpus c1" using a cpus by simp
  have fast: "ucast n \<le> pcpu_sectors_available c cpu \<Longrightarrow> sectors_available c1 = sectors_available c"
    using add by (auto simp: bch2_disk_reservation_add_def reservation_out_def)
  have cas: "\<not> ucast n \<le> pcpu_sectors_available c cpu
              \<and> \<not> min (ucast n + SECTORS_CACHE) (sectors_available c) < ucast n \<Longrightarrow>
               sectors_available c1
                 = sectors_available c - min (ucast n + SECTORS_CACHE) (sectors_available c)"
    using add by (auto simp: bch2_disk_reservation_add_def reservation_out_def Let_def)
  have rec: "sectors_available c1
             = (if snd (bch2_recalc_sectors_available c) - ucast n <s 0 then 0
                else snd (bch2_recalc_sectors_available c) - ucast n)"
    if "\<not> ucast n \<le> pcpu_sectors_available c cpu"
      "min (ucast n + SECTORS_CACHE) (sectors_available c) < ucast n"
  proof -
    from that add have "reservation_recalculate c cpu' res n flags = (c1, res1, 0)"
      by (simp add: bch2_disk_reservation_add_def Let_def)
    then show ?thesis by (rule recalculate_pool)
  qed
  from put_online [OF p put] a fast cas rec show ?thesis by auto
qed

lemma recalc_fs_behind: "snd (bch2_recalc_sectors_available fs_behind) = 150"
proof -
  have "bch2_usage_read_raw 2 (\<lambda>cpu. if cpu = 0 then delta_of 8039 else (\<lambda>i. 0)) = delta_of 8039"
    by (simp add: fun_eq_iff read_raw_sum lessThan_Suc numeral_2_eq_2)
  then show ?thesis
    by (simp add: bch2_recalc_sectors_available_def Let_def recalc_fold fs_behind_def fs_of_def
        bch2_fs_sectors_free_def bch2_fs_usage_read_short_def delta_of_def reserve_factor_def
        round_up_def avail_factor_def RESERVE_FACTOR_def)
qed

lemma add_fs_of:
  "bch2_disk_reservation_add (fs_of 8066 []) 0 0 res0 100 0
     = (fst (bch2_disk_reservation_add (fs_of 8066 []) 0 0 res0 100 0), res0\<lparr>res_sectors := 100\<rparr>, 0)"
  by (simp add: bch2_disk_reservation_add_def reservation_out_def fs_of_def SECTORS_CACHE_def
      Let_def res0_def)

lemma add_fs_cached:
  "bch2_disk_reservation_add fs_cached 0 0 res0 100 0
     = (fst (bch2_disk_reservation_add fs_cached 0 0 res0 100 0), res0\<lparr>res_sectors := 100\<rparr>, 0)"
  by (simp add: bch2_disk_reservation_add_def reservation_out_def fs_of_def fs_cached_def
      SECTORS_CACHE_def Let_def res0_def)

lemma add_fs_behind:
  "bch2_disk_reservation_add fs_behind 0 1 res0 100 0
     = (fst (bch2_disk_reservation_add fs_behind 0 1 res0 100 0), res0\<lparr>res_sectors := 100\<rparr>, 0)"
proof -
  have miss: "\<not> ucast (100 :: u32) \<le> pcpu_sectors_available fs_behind 0"
    and short: "min (ucast (100 :: u32) + SECTORS_CACHE) (sectors_available fs_behind) < ucast (100 :: u32)"
    by (simp_all add: fs_behind_def fs_of_def SECTORS_CACHE_def)
  obtain c1 where r: "bch2_recalc_sectors_available fs_behind = (c1, 150)"
    using recalc_fs_behind by (cases "bch2_recalc_sectors_available fs_behind") simp
  show ?thesis
    using miss short r
    by (simp add: bch2_disk_reservation_add_def reservation_recalculate_def Let_def res0_def
        BCH_DISK_RESERVATION_GC_LOCK_HELD_def BCH_DISK_RESERVATION_NOFAIL_def word_sle_eq)
qed

text \<open>
  The theorem on the three paths of the add, each for 100 sectors reserved on CPU 0 and
  released on CPU 1: the spec's scenario S1 (a pool of 8066 refills the cache and is left
  at 6942), a cache that already holds 1024 sectors (the pool stays at 8066), and a pool
  of 50 behind counters that recompute to 150 (the pool is 50 again).
\<close>

theorem reservation_add_put_witness:
  "snd (snd (bch2_disk_reservation_add (fs_of 8066 []) 0 0 res0 100 0)) = 0
   \<and> bch2_fs_usage_read
        (fst (uu_bch2_disk_reservation_put
                (fst (bch2_disk_reservation_add (fs_of 8066 []) 0 0 res0 100 0)) 1
                (res0\<lparr>res_sectors := 100\<rparr>))) S_online_reserved
      = bch2_fs_usage_read (fs_of 8066 []) S_online_reserved
   \<and> sectors_available
        (fst (uu_bch2_disk_reservation_put
                (fst (bch2_disk_reservation_add (fs_of 8066 []) 0 0 res0 100 0)) 1
                (res0\<lparr>res_sectors := 100\<rparr>))) = 6942
   \<and> snd (snd (bch2_disk_reservation_add fs_cached 0 0 res0 100 0)) = 0
   \<and> sectors_available
        (fst (uu_bch2_disk_reservation_put
                (fst (bch2_disk_reservation_add fs_cached 0 0 res0 100 0)) 1
                (res0\<lparr>res_sectors := 100\<rparr>))) = 8066
   \<and> snd (snd (bch2_disk_reservation_add fs_behind 0 1 res0 100 0)) = 0
   \<and> sectors_available fs_behind = 50
   \<and> sectors_available
        (fst (uu_bch2_disk_reservation_put
                (fst (bch2_disk_reservation_add fs_behind 0 1 res0 100 0)) 1
                (res0\<lparr>res_sectors := 100\<rparr>))) = 50"
proof -
  let ?r1 = "res0\<lparr>res_sectors := 100\<rparr>"
  have put: "uu_bch2_disk_reservation_put x 1 ?r1
             = (fst (uu_bch2_disk_reservation_put x 1 ?r1), snd (uu_bch2_disk_reservation_put x 1 ?r1))"
    for x by simp
  have cpus: "0 < nr_cpus (fs_of 8066 [])" "1 < nr_cpus (fs_of 8066 [])"
    "0 < nr_cpus fs_cached" "1 < nr_cpus fs_cached" "0 < nr_cpus fs_behind" "1 < nr_cpus fs_behind"
    by (simp_all add: fs_of_def fs_cached_def fs_behind_def)
  from reservation_add_put [OF add_fs_of put cpus(1) cpus(1) cpus(2)]
  have 1: "bch2_fs_usage_read
        (fst (uu_bch2_disk_reservation_put
                (fst (bch2_disk_reservation_add (fs_of 8066 []) 0 0 res0 100 0)) 1 ?r1))
        S_online_reserved
      = bch2_fs_usage_read (fs_of 8066 []) S_online_reserved"
    "sectors_available
        (fst (uu_bch2_disk_reservation_put
                (fst (bch2_disk_reservation_add (fs_of 8066 []) 0 0 res0 100 0)) 1 ?r1)) = 6942"
    by (simp_all add: res0_def fs_of_def SECTORS_CACHE_def)
  from reservation_add_put [OF add_fs_cached put cpus(3) cpus(3) cpus(4)]
  have 2: "sectors_available
        (fst (uu_bch2_disk_reservation_put
                (fst (bch2_disk_reservation_add fs_cached 0 0 res0 100 0)) 1 ?r1)) = 8066"
    by (simp add: fs_cached_def fs_of_def)
  from reservation_add_put [OF add_fs_behind put cpus(5) cpus(6) cpus(6)]
  have 3: "sectors_available
        (fst (uu_bch2_disk_reservation_put
                (fst (bch2_disk_reservation_add fs_behind 0 1 res0 100 0)) 1 ?r1)) = 50"
    by (simp add: recalc_fs_behind) (simp add: fs_behind_def fs_of_def SECTORS_CACHE_def word_sless_alt)
  have 4: "sectors_available fs_behind = 50" by (simp add: fs_behind_def fs_of_def)
  from add_fs_of add_fs_cached add_fs_behind
  have 5: "snd (snd (bch2_disk_reservation_add (fs_of 8066 []) 0 0 res0 100 0)) = 0"
    "snd (snd (bch2_disk_reservation_add fs_cached 0 0 res0 100 0)) = 0"
    "snd (snd (bch2_disk_reservation_add fs_behind 0 1 res0 100 0)) = 0"
    by (metis snd_conv)+
  from 1 2 3 4 5 show ?thesis by simp
qed

text \<open>
  The claim as stated fails: in scenario S1 the add returns 0 and the pool, 8066 before
  the add, is 6942 after the put.
\<close>

theorem reservation_pool_not_restored:
  "snd (snd (bch2_disk_reservation_add (fs_of 8066 []) 0 0
              \<lparr>res_sectors = 0, res_gen = 0, res_nr_replicas = 1\<rparr> 100 0)) = 0
   \<and> sectors_available (fs_of 8066 []) = 8066
   \<and> sectors_available
       (fst (uu_bch2_disk_reservation_put
              (fst (bch2_disk_reservation_add (fs_of 8066 []) 0 0
                     \<lparr>res_sectors = 0, res_gen = 0, res_nr_replicas = 1\<rparr> 100 0))
              0
              (fst (snd (bch2_disk_reservation_add (fs_of 8066 []) 0 0
                     \<lparr>res_sectors = 0, res_gen = 0, res_nr_replicas = 1\<rparr> 100 0))))) = 6942"
  by (simp add: bch2_disk_reservation_add_def reservation_out_def uu_bch2_disk_reservation_put_def
      fs_of_def SECTORS_CACHE_def Let_def)

subsection \<open>Marking a pointer\<close>

lemma ucast_s64_u32: "(ucast (b :: s64) :: u32) = word_of_int (sint b)"
proof -
  have "is_down (ucast :: s64 \<Rightarrow> u32)" by (simp add: is_down)
  then have "(ucast :: s64 \<Rightarrow> u32) = scast" by (rule down_cast_same)
  then show ?thesis by (simp only: scast_eq)
qed

lemma ucast_s64_15: "(ucast (b :: s64) :: 15 word) = word_of_int (sint b)"
proof -
  have "is_down (ucast :: s64 \<Rightarrow> 15 word)" by (simp add: is_down)
  then have "(ucast :: s64 \<Rightarrow> 15 word) = scast" by (rule down_cast_same)
  then show ?thesis by (simp only: scast_eq)
qed

lemma checked_add_res:
  fixes a :: "15 word" and b :: s64
  shows "(ucast a + ucast b :: u32) = word_of_int (uint a + sint b)"
proof -
  have "(ucast a :: u32) = word_of_int (uint a)" by (rule ucast_eq)
  then show ?thesis by (simp only: ucast_s64_u32 wi_hom_add)
qed

lemma ucast_15_roundtrip:
  fixes r :: u32
  shows "(ucast (ucast r :: 15 word) = r) = (uint r < 2 ^ 15)"
proof -
  have A: "uint (ucast r :: 15 word) = take_bit LENGTH(15) (uint r)"
    by (rule unsigned_ucast_eq)
  have B: "uint (ucast (ucast r :: 15 word) :: u32) = take_bit LENGTH(32) (uint (ucast r :: 15 word))"
    by (rule unsigned_ucast_eq)
  have "(uint r mod 2 ^ 15) mod 2 ^ 32 = uint r mod 2 ^ 15"
    by (rule mod_pos_pos_trivial) (simp_all add: less_le_trans [OF pos_mod_bound])
  moreover have "(uint r mod 2 ^ 15 = uint r) = (uint r < 2 ^ 15)"
    by (auto simp add: zmod_trivial_iff)
  ultimately show ?thesis
    unfolding word_uint_eq_iff B A by (simp add: take_bit_eq_mod)
qed

lemma ucast_wi_15: "(ucast (word_of_int t :: u32) :: 15 word) = word_of_int t"
proof -
  have A: "uint (ucast (word_of_int t :: u32) :: 15 word)
           = take_bit LENGTH(15) (uint (word_of_int t :: u32))"
    by (rule unsigned_ucast_eq)
  have "(t mod 2 ^ 32) mod 2 ^ 15 = t mod (2 ^ 15 :: int)"
    by (rule mod_mod_cancel) simp
  then show ?thesis
    unfolding word_uint_eq_iff A by (simp add: uint_word_of_int take_bit_eq_mod)
qed

lemma checked_add_s64:
  fixes a :: "15 word" and b :: s64
  shows "checked_add a b =
         (if (uint a + sint b) mod 2 ^ 32 < 2 ^ 15 then Some (word_of_int (uint a + sint b)) else None)"
proof -
  have r: "(ucast a + ucast b :: u32) = word_of_int (uint a + sint b)"
    by (rule checked_add_res)
  have u: "uint (word_of_int (uint a + sint b) :: u32) = (uint a + sint b) mod 2 ^ 32"
    by (simp only: uint_word_of_int) simp
  have "checked_add a b =
        (if \<not> (uint a + sint b) mod 2 ^ 32 < 2 ^ 15 then None
         else Some (word_of_int (uint a + sint b)))"
    unfolding checked_add_def Let_def r ucast_15_roundtrip ucast_wi_15 u ..
  then show ?thesis
    by (cases "(uint a + sint b) mod 2 ^ 32 < 2 ^ 15")
      (simp_all only: if_True if_False not_True_eq_False not_False_eq_True)
qed

lemma checked_add_sum:
  fixes a :: "15 word" and b :: s64
  assumes "checked_add a b = Some d"
  shows "d = a + ucast b"
proof -
  from assms have "d = word_of_int (uint a + sint b)"
    unfolding checked_add_s64 by (auto simp only: option.inject option.distinct split: if_splits)
  also have "\<dots> = word_of_int (uint a) + word_of_int (sint b)"
    by (simp only: wi_hom_add)
  also have "\<dots> = a + ucast b"
    by (simp only: ucast_s64_15 word_of_int_uint)
  finally show ?thesis .
qed

lemma checked_add_int:
  fixes a :: "15 word" and b :: s64
  assumes "- (2 ^ 31) \<le> sint b" "sint b < 2 ^ 31"
  shows "checked_add a b =
         (if 0 \<le> uint a + sint b \<and> uint a + sint b < 2 ^ 15
          then Some (word_of_int (uint a + sint b)) else None)"
proof -
  define t where "t = uint a + sint b"
  have t1: "- (2 ^ 31) \<le> t"
    using assms(1) uint_nonnegative [of a] unfolding t_def by linarith
  have t2: "t < 2 ^ 32"
    using assms(2) uint_lt2p [of a] unfolding t_def by simp
  note t = t1 t2
  have "(t mod 2 ^ 32 < 2 ^ 15) = (0 \<le> t \<and> t < 2 ^ 15)"
  proof (cases "0 \<le> t")
    case True
    with t have "t mod 2 ^ 32 = t" by (simp add: mod_pos_pos_trivial)
    with True show ?thesis by simp
  next
    case False
    have "t mod 2 ^ 32 = (t + 2 ^ 32) mod 2 ^ 32" by simp
    also have "\<dots> = t + 2 ^ 32"
      using False t by (intro mod_pos_pos_trivial) simp_all
    finally have "t mod 2 ^ 32 = t + 2 ^ 32" .
    with False t show ?thesis by simp
  qed
  then show ?thesis unfolding checked_add_s64 t_def by (simp only:)
qed

lemma dev_usage_update_buckets:
  "map buckets (devs (fst (bch2_dev_usage_update H c cpu dev fu old new gc))) = map buckets (devs c)"
proof (cases "dev < length (devs c)")
  case True
  then have "(map buckets (devs c))[dev := buckets (devs c ! dev)] = map buckets (devs c)"
    by (simp add: list_update_same_conv)
  then show ?thesis
    by (simp add: bch2_dev_usage_update_def Let_def map_update)
next
  case False
  then have "(map buckets (devs c))[dev := buckets (devs c ! dev)] = map buckets (devs c)"
    by (intro list_update_beyond) simp
  then show ?thesis
    by (simp add: bch2_dev_usage_update_def Let_def map_update)
qed

lemma bucket_of_cong:
  assumes "map buckets (devs c') = map buckets (devs c)"
  shows "bucket_of c' d b g = bucket_of c d b g"
proof -
  from assms have l: "length (devs c') = length (devs c)" by (metis length_map)
  show ?thesis
  proof (cases "d < length (devs c)")
    case True
    with assms l have "buckets (devs c' ! d) = buckets (devs c ! d)"
      by (metis nth_map)
    with True l show ?thesis
      by (simp add: bucket_of_def bch_dev_bkey_exists_def uu_bucket_def)
  next
    case False
    with l show ?thesis by (simp add: bucket_of_def bch_dev_bkey_exists_def)
  qed
qed

lemma bucket_of_dev_usage_update:
  "bucket_of (fst (bch2_dev_usage_update H c cpu dev fu old new gc)) d b g = bucket_of c d b g"
  by (rule bucket_of_cong) (rule dev_usage_update_buckets)

lemma bucket_of_set_bucket_mark:
  assumes "bucket_of c dev b gc = Some old"
  shows "bucket_of (set_bucket_mark c dev b gc new) d b' g
         = (if d = dev \<and> b' = b \<and> g = gc then Some new else bucket_of c d b' g)"
  using assms
  by (auto simp: bucket_of_def set_bucket_mark_def bch_dev_bkey_exists_def uu_bucket_def Let_def
      nth_list_update split: if_splits)

lemma fs_of_dev: "bch_dev_bkey_exists (fs_of a ms) 0 = Some (dev_of ms)"
  by (simp add: bch_dev_bkey_exists_def fs_of_def)

lemma H0_bucket_nr: "PTR_BUCKET_NR H0 (mi_bucket_size (dev_of ms)) (ptr (ptr_of 0 g k n es)) = 0"
  by (simp add: H0_def dev_of_def ptr_of_def)

lemma dev_of_bucket: "uu_bucket (dev_of (m # ms)) 0 gc = Some m"
  by (simp add: uu_bucket_def dev_of_def)

lemma gen_after_same: "gen_after g g = 0"
  by (simp add: gen_after_def gen_cmp_def)

text \<open>
  C5. When \<open>bch2_mark_pointer\<close> is called for a pointer whose device and bucket exist, the
  bucket's generation is after the pointer's (wraparound-aware) and the alloc btree has
  been read, the call returns without a trap and leaves the filesystem (every bucket mark
  and every device usage counter) and the \<open>fs_usage\<close> it was passed unchanged.
\<close>

theorem mark_pointer_stale_noop:
  assumes dev: "bch_dev_bkey_exists c (ptr_dev (ptr p)) = Some ca"
    and bkt: "uu_bucket ca (PTR_BUCKET_NR H (mi_bucket_size ca) (ptr p)) gc = Some m"
    and stale: "gen_after (gen m) (ptr_gen (ptr p)) \<noteq> 0"
    and rd: "alloc_read_done c"
  shows "bch2_mark_pointer H c cpu p sectors dtype fs_usage jseq flags gc = Some (c, fs_usage)"
  using assms by (simp add: bch2_mark_pointer_def)

text \<open>The theorem in the spec's scenario S3: bucket generation 5, pointer generation 3.\<close>

theorem mark_pointer_stale_noop_witness:
  "bch_dev_bkey_exists (fs_of 0 [user_bucket 5 10]) (ptr_dev (ptr (ptr_of 0 3 False 8 [])))
     = Some (dev_of [user_bucket 5 10])
   \<and> uu_bucket (dev_of [user_bucket 5 10])
        (PTR_BUCKET_NR H0 (mi_bucket_size (dev_of [user_bucket 5 10])) (ptr (ptr_of 0 3 False 8 []))) False
       = Some (user_bucket 5 10)
   \<and> gen_after (gen (user_bucket 5 10)) (ptr_gen (ptr (ptr_of 0 3 False 8 []))) = 2
   \<and> alloc_read_done (fs_of 0 [user_bucket 5 10])
   \<and> bch2_mark_pointer H0 (fs_of 0 [user_bucket 5 10]) 0 (ptr_of 0 3 False 8 []) 8 BCH_DATA_USER
        (delta_of 0) 0 0 False
       = Some (fs_of 0 [user_bucket 5 10], delta_of 0)"
proof -
  have dev: "bch_dev_bkey_exists (fs_of 0 [user_bucket 5 10]) (ptr_dev (ptr (ptr_of 0 3 False 8 [])))
     = Some (dev_of [user_bucket 5 10])"
    by (simp add: fs_of_dev ptr_of_def)
  have bkt: "uu_bucket (dev_of [user_bucket 5 10])
        (PTR_BUCKET_NR H0 (mi_bucket_size (dev_of [user_bucket 5 10])) (ptr (ptr_of 0 3 False 8 []))) False
       = Some (user_bucket 5 10)"
    by (simp add: H0_bucket_nr dev_of_bucket)
  have g: "gen_after (gen (user_bucket 5 10)) (ptr_gen (ptr (ptr_of 0 3 False 8 []))) = 2"
    by (simp add: gen_after_def gen_cmp_def user_bucket_def ptr_of_def)
  then have stale: "gen_after (gen (user_bucket 5 10)) (ptr_gen (ptr (ptr_of 0 3 False 8 []))) \<noteq> 0"
    by simp
  have rd: "alloc_read_done (fs_of 0 [user_bucket 5 10])" by (simp add: fs_of_def)
  from mark_pointer_stale_noop [OF dev bkt stale rd] dev bkt g rd show ?thesis by blast
qed

lemma mark_pointer_fresh:
  assumes dev: "bch_dev_bkey_exists c (ptr_dev (ptr p)) = Some ca"
    and bkt: "uu_bucket ca (PTR_BUCKET_NR H (mi_bucket_size ca) (ptr p)) gc = Some old"
    and fresh: "gen_after (gen old) (ptr_gen (ptr p)) = 0"
    and ok: "bch2_mark_pointer H c cpu p sectors dtype fs_usage jseq flags gc = Some r"
  shows "\<exists>new. mark_pointer_new old (ptr_cached (ptr p)) sectors dtype jseq = Some new
           \<and> (gc \<or> \<not> bucket_became_unavailable H old new)
           \<and> r = bch2_dev_usage_update H
                    (set_bucket_mark c (ptr_dev (ptr p)) (PTR_BUCKET_NR H (mi_bucket_size ca) (ptr p)) gc new) cpu
                    (ptr_dev (ptr p)) fs_usage old new gc
           \<and> bucket_of (fst r) (ptr_dev (ptr p)) (PTR_BUCKET_NR H (mi_bucket_size ca) (ptr p)) gc = Some new"
proof -
  from ok dev bkt fresh obtain new where
    n: "mark_pointer_new old (ptr_cached (ptr p)) sectors dtype jseq = Some new"
    and u: "gc \<or> \<not> bucket_became_unavailable H old new"
    and r: "r = bch2_dev_usage_update H
                    (set_bucket_mark c (ptr_dev (ptr p)) (PTR_BUCKET_NR H (mi_bucket_size ca) (ptr p)) gc new) cpu
                    (ptr_dev (ptr p)) fs_usage old new gc"
    by (auto simp: bch2_mark_pointer_def Let_def split: Option.bind_splits if_splits)
  have "bucket_of c (ptr_dev (ptr p)) (PTR_BUCKET_NR H (mi_bucket_size ca) (ptr p)) gc = Some old"
    using dev bkt by (simp add: bucket_of_def)
  then have "bucket_of (fst r) (ptr_dev (ptr p)) (PTR_BUCKET_NR H (mi_bucket_size ca) (ptr p)) gc = Some new"
    unfolding r by (simp add: bucket_of_dev_usage_update bucket_of_set_bucket_mark)
  with n u r show ?thesis by blast
qed

lemma mark_pointer_new_Some:
  assumes "mark_pointer_new old is_cached sectors dtype jseq = Some new"
  shows "(if is_cached
          then cached_sectors new = cached_sectors old + ucast sectors
               \<and> dirty_sectors new = dirty_sectors old
               \<and> checked_add (cached_sectors old) sectors = Some (cached_sectors new)
          else dirty_sectors new = dirty_sectors old + ucast sectors
               \<and> cached_sectors new = cached_sectors old
               \<and> checked_add (dirty_sectors old) sectors = Some (dirty_sectors new))
         \<and> data_type new
             = (if dirty_sectors new = 0 \<and> cached_sectors new = 0 then BCH_DATA_NONE else dtype)
         \<and> (if dirty_sectors new = 0 \<and> cached_sectors new = 0 \<and> jseq \<noteq> 0
             then journal_seq_valid new \<and> journal_seq new = ucast jseq
             else journal_seq_valid new = journal_seq_valid old
                  \<and> journal_seq new = journal_seq old)
         \<and> gen new = gen old \<and> owned_by_allocator new = owned_by_allocator old
         \<and> stripe new = stripe old"
proof (cases is_cached)
  case True
  with assms obtain d where d: "checked_add (cached_sectors old) sectors = Some d"
    by (auto simp: mark_pointer_new_def split: Option.bind_splits)
  from checked_add_sum [OF d] have s: "d = cached_sectors old + ucast sectors" .
  from assms True d show ?thesis
    unfolding s [symmetric]
    by (auto simp: mark_pointer_new_def split: if_splits)
next
  case False
  with assms obtain d where d: "checked_add (dirty_sectors old) sectors = Some d"
    by (auto simp: mark_pointer_new_def split: Option.bind_splits)
  from checked_add_sum [OF d] have s: "d = dirty_sectors old + ucast sectors" .
  from assms False d show ?thesis
    unfolding s [symmetric]
    by (auto simp: mark_pointer_new_def split: if_splits)
qed

lemma result_bucket_mark_pointer:
  assumes dev: "bch_dev_bkey_exists c (ptr_dev (ptr p)) = Some ca"
    and bkt: "uu_bucket ca (PTR_BUCKET_NR H (mi_bucket_size ca) (ptr p)) gc = Some old"
    and fresh: "gen_after (gen old) (ptr_gen (ptr p)) = 0"
    and new: "mark_pointer_new old (ptr_cached (ptr p)) sectors dtype jseq = Some new"
    and avail: "gc \<or> \<not> bucket_became_unavailable H old new"
  shows "result_bucket (bch2_mark_pointer H c cpu p sectors dtype fs_usage jseq flags gc)
           (ptr_dev (ptr p)) (PTR_BUCKET_NR H (mi_bucket_size ca) (ptr p)) gc = Some new"
proof -
  let ?r = "bch2_dev_usage_update H
              (set_bucket_mark c (ptr_dev (ptr p)) (PTR_BUCKET_NR H (mi_bucket_size ca) (ptr p)) gc new) cpu
              (ptr_dev (ptr p)) fs_usage old new gc"
  have r: "bch2_mark_pointer H c cpu p sectors dtype fs_usage jseq flags gc = Some ?r"
    using assms by (auto simp: bch2_mark_pointer_def Let_def)
  from mark_pointer_fresh [OF dev bkt fresh r] new show ?thesis
    by (auto simp: result_bucket_def r)
qed

text \<open>
  C4, as the code has it. When \<open>bch2_mark_pointer\<close> returns for a pointer that is not
  stale, the bucket's new mark has the sector delta added to \<open>cached_sectors\<close> (cached
  pointer) or \<open>dirty_sectors\<close>; its \<open>data_type\<close> is none when both counts are now zero and
  the caller's \<open>data_type\<close> otherwise; and the journal sequence is stamped
  (\<open>journal_seq_valid\<close> set, \<open>journal_seq\<close> the supplied one truncated to the field) exactly
  when a non-zero sequence is supplied and both counts are now zero: while sectors
  remain, \<open>journal_seq_valid\<close> and \<open>journal_seq\<close> keep their old values.
\<close>

theorem mark_pointer_data_type_and_journal_seq:
  assumes dev: "bch_dev_bkey_exists c (ptr_dev (ptr p)) = Some ca"
    and bkt: "uu_bucket ca (PTR_BUCKET_NR H (mi_bucket_size ca) (ptr p)) gc = Some old"
    and fresh: "gen_after (gen old) (ptr_gen (ptr p)) = 0"
    and ok: "bch2_mark_pointer H c cpu p sectors dtype fs_usage jseq flags gc = Some r"
  shows "case bucket_of (fst r) (ptr_dev (ptr p)) (PTR_BUCKET_NR H (mi_bucket_size ca) (ptr p)) gc of
           None \<Rightarrow> False
         | Some new \<Rightarrow>
             ptr_sectors p new = ptr_sectors p old + ucast sectors
             \<and> data_type new
                 = (if dirty_sectors new = 0 \<and> cached_sectors new = 0 then BCH_DATA_NONE
                    else dtype)
             \<and> (if dirty_sectors new = 0 \<and> cached_sectors new = 0 \<and> jseq \<noteq> 0
                 then journal_seq_valid new \<and> journal_seq new = ucast jseq
                 else journal_seq_valid new = journal_seq_valid old
                      \<and> journal_seq new = journal_seq old)"
proof -
  from mark_pointer_fresh [OF dev bkt fresh ok] obtain new where
    n: "mark_pointer_new old (ptr_cached (ptr p)) sectors dtype jseq = Some new"
    and b: "bucket_of (fst r) (ptr_dev (ptr p)) (PTR_BUCKET_NR H (mi_bucket_size ca) (ptr p)) gc = Some new"
    by blast
  from mark_pointer_new_Some [OF n] show ?thesis
    unfolding b by (simp add: ptr_sectors_def split: if_splits)
qed

text \<open>The theorem where the last 8 dirty sectors of a bucket are removed under journal
  sequence 7: the emptied bucket is stamped.\<close>

theorem mark_pointer_data_type_and_journal_seq_witness:
  "bch_dev_bkey_exists (fs_of 0 [filling_bucket 8]) (ptr_dev (ptr (ptr_of 0 0 False 8 [])))
     = Some (dev_of [filling_bucket 8])
   \<and> uu_bucket (dev_of [filling_bucket 8])
        (PTR_BUCKET_NR H0 (mi_bucket_size (dev_of [filling_bucket 8])) (ptr (ptr_of 0 0 False 8 []))) False
       = Some (filling_bucket 8)
   \<and> gen_after (gen (filling_bucket 8)) (ptr_gen (ptr (ptr_of 0 0 False 8 []))) = 0
   \<and> result_bucket
        (bch2_mark_pointer H0 (fs_of 0 [filling_bucket 8]) 0 (ptr_of 0 0 False 8 []) (- 8)
           BCH_DATA_USER (delta_of 0) 7 0 False) 0 0 False
       = Some ((open_bucket 0)\<lparr>journal_seq_valid := True, journal_seq := 7\<rparr>)"
proof -
  let ?p = "ptr_of 0 0 False 8 []"
  let ?ms = "[filling_bucket 8]"
  let ?new = "(open_bucket 0)\<lparr>journal_seq_valid := True, journal_seq := 7\<rparr>"
  let ?call = "bch2_mark_pointer H0 (fs_of 0 ?ms) 0 ?p (- 8) BCH_DATA_USER (delta_of 0) 7 0 False"
  have dev: "bch_dev_bkey_exists (fs_of 0 ?ms) (ptr_dev (ptr ?p)) = Some (dev_of ?ms)"
    by (simp add: fs_of_dev ptr_of_def)
  have bkt: "uu_bucket (dev_of ?ms) (PTR_BUCKET_NR H0 (mi_bucket_size (dev_of ?ms)) (ptr ?p)) False
       = Some (filling_bucket 8)"
    by (simp add: H0_bucket_nr dev_of_bucket)
  have fresh: "gen_after (gen (filling_bucket 8)) (ptr_gen (ptr ?p)) = 0"
    by (simp add: gen_after_same filling_bucket_def open_bucket_def ptr_of_def)
  have new: "mark_pointer_new (filling_bucket 8) (ptr_cached (ptr ?p)) (- 8) BCH_DATA_USER 7
             = Some ?new"
    by (simp add: mark_pointer_new_def checked_add_def filling_bucket_def open_bucket_def ptr_of_def)
  have avail: "False \<or> \<not> bucket_became_unavailable H0 (filling_bucket 8) ?new"
    by (simp add: bucket_became_unavailable_def H0_def filling_bucket_def open_bucket_def)
  have nr: "PTR_BUCKET_NR H0 (mi_bucket_size (dev_of ?ms)) (ptr ?p) = 0" by (rule H0_bucket_nr)
  have d: "ptr_dev (ptr ?p) = 0" by (simp add: ptr_of_def)
  have r: "result_bucket ?call 0 0 False = Some ?new"
    using result_bucket_mark_pointer [OF dev bkt fresh new avail, of 0 "delta_of 0" 0]
    unfolding nr d .
  then obtain x where ok: "?call = Some x" and b: "bucket_of (fst x) 0 0 False = Some ?new"
    by (auto simp: result_bucket_def split: option.splits)
  from mark_pointer_data_type_and_journal_seq [OF dev bkt fresh ok] b
  have "journal_seq_valid ?new \<and> journal_seq ?new = ucast (7 :: u32)"
    unfolding nr d by (simp add: open_bucket_def)
  with dev bkt fresh r show ?thesis by blast
qed

text \<open>
  The claim as stated fails: marking 8 dirty sectors into an empty open bucket under
  journal sequence 7 leaves sectors in the bucket, and the mark is not stamped.
\<close>

theorem mark_pointer_no_stamp_while_sectors_remain:
  "result_bucket
     (bch2_mark_pointer H0 (fs_of 0 [open_bucket 0]) 0 (ptr_of 0 0 False 8 []) 8 BCH_DATA_USER
        (delta_of 0) 7 0 False) 0 0 False
   = Some \<lparr> gen = 0, data_type = BCH_DATA_USER, owned_by_allocator = True, dirty_sectors = 8,
            cached_sectors = 0, stripe = False, journal_seq_valid = False, journal_seq = 0 \<rparr>"
proof -
  let ?p = "ptr_of 0 0 False 8 []"
  let ?new = "\<lparr> gen = 0, data_type = BCH_DATA_USER, owned_by_allocator = True, dirty_sectors = 8,
            cached_sectors = 0, stripe = False, journal_seq_valid = False, journal_seq = 0 \<rparr>"
  have dev: "bch_dev_bkey_exists (fs_of 0 [open_bucket 0]) (ptr_dev (ptr ?p)) = Some (dev_of [open_bucket 0])"
    by (simp add: fs_of_dev ptr_of_def)
  have bkt: "uu_bucket (dev_of [open_bucket 0]) (PTR_BUCKET_NR H0 (mi_bucket_size (dev_of [open_bucket 0])) (ptr ?p)) False
       = Some (open_bucket 0)"
    by (simp add: H0_bucket_nr dev_of_bucket)
  have fresh: "gen_after (gen (open_bucket 0)) (ptr_gen (ptr ?p)) = 0"
    by (simp add: gen_after_same open_bucket_def ptr_of_def)
  have new: "mark_pointer_new (open_bucket 0) (ptr_cached (ptr ?p)) 8 BCH_DATA_USER 7 = Some ?new"
    by (simp add: mark_pointer_new_def checked_add_def open_bucket_def ptr_of_def)
  have avail: "False \<or> \<not> bucket_became_unavailable H0 (open_bucket 0) ?new"
    by (simp add: bucket_became_unavailable_def H0_def open_bucket_def)
  have nr: "PTR_BUCKET_NR H0 (mi_bucket_size (dev_of [open_bucket 0])) (ptr ?p) = 0" by (rule H0_bucket_nr)
  have d: "ptr_dev (ptr ?p) = 0" by (simp add: ptr_of_def)
  from result_bucket_mark_pointer [OF dev bkt fresh new avail, of 0 "delta_of 0" 0]
  show ?thesis unfolding nr d .
qed

lemma mark_pointer_fresh_count:
  assumes dev: "bch_dev_bkey_exists c (ptr_dev (ptr p)) = Some ca"
    and bkt: "uu_bucket ca (PTR_BUCKET_NR H (mi_bucket_size ca) (ptr p)) gc = Some old"
    and fresh: "gen_after (gen old) (ptr_gen (ptr p)) = 0"
    and range: "- (2 ^ 31) \<le> sint sectors" "sint sectors < 2 ^ 31"
    and ok: "bch2_mark_pointer H c cpu p sectors dtype fs_usage jseq flags gc = Some r"
  shows "\<exists>new. bucket_of (fst r) (ptr_dev (ptr p)) (PTR_BUCKET_NR H (mi_bucket_size ca) (ptr p)) gc = Some new
               \<and> uint (ptr_sectors p new) = uint (ptr_sectors p old) + sint sectors
               \<and> 0 \<le> uint (ptr_sectors p old) + sint sectors
               \<and> uint (ptr_sectors p old) + sint sectors \<le> 32767"
proof -
  let ?t = "uint (ptr_sectors p old) + sint sectors"
  have ca: "checked_add (ptr_sectors p old) sectors =
            (if 0 \<le> ?t \<and> ?t < 2 ^ 15 then Some (word_of_int ?t) else None)"
    by (rule checked_add_int [OF range])
  from mark_pointer_fresh [OF dev bkt fresh ok] obtain new where
    n: "mark_pointer_new old (ptr_cached (ptr p)) sectors dtype jseq = Some new"
    and b: "bucket_of (fst r) (ptr_dev (ptr p)) (PTR_BUCKET_NR H (mi_bucket_size ca) (ptr p)) gc = Some new"
    by blast
  from mark_pointer_new_Some [OF n]
  have "checked_add (ptr_sectors p old) sectors = Some (ptr_sectors p new)"
    by (simp add: ptr_sectors_def split: if_splits)
  with ca have t: "0 \<le> ?t" "?t < 2 ^ 15" and w: "ptr_sectors p new = word_of_int ?t"
    by (simp_all split: if_splits)
  have "uint (word_of_int ?t :: 15 word) = ?t"
    using t by (simp add: uint_word_of_int mod_pos_pos_trivial del: of_int_add)
  with b t w show ?thesis by simp
qed

text \<open>
  C8, as the code has it. The marking code never compares a bucket's sector counts with
  the bucket size; what it keeps is the range of the 15-bit field. Let
  \<open>bch2_mark_pointer\<close> be called with a sector delta that fits an \<open>int\<close>, for a pointer
  whose device and bucket exist. If the pointer is not stale (the bucket's generation is
  not after the pointer's), then when the call returns the count it added to
  (\<open>dirty_sectors\<close>, or \<open>cached_sectors\<close> for a cached pointer) is the old count plus the
  delta as integers, with no wrap-around, and at most 32767; and a call whose sum would
  fall below 0 or exceed 32767 traps in the checked add. If the pointer is stale, nothing
  is added and nothing is checked: the call returns the filesystem as it was (or traps
  because the alloc btree has not been read), whatever the delta.
\<close>

theorem mark_pointer_sector_count_checked:
  assumes dev: "bch_dev_bkey_exists c (ptr_dev (ptr p)) = Some ca"
    and bkt: "uu_bucket ca (PTR_BUCKET_NR H (mi_bucket_size ca) (ptr p)) gc = Some old"
    and range: "- (2 ^ 31) \<le> sint sectors" "sint sectors < 2 ^ 31"
  shows "(gen_after (gen old) (ptr_gen (ptr p)) = 0 \<longrightarrow>
            (\<forall>r. bch2_mark_pointer H c cpu p sectors dtype fs_usage jseq flags gc = Some r \<longrightarrow>
               (\<exists>new. bucket_of (fst r) (ptr_dev (ptr p))
                         (PTR_BUCKET_NR H (mi_bucket_size ca) (ptr p)) gc = Some new
                  \<and> uint (ptr_sectors p new) = uint (ptr_sectors p old) + sint sectors
                  \<and> uint (ptr_sectors p new) \<le> 32767))
            \<and> (uint (ptr_sectors p old) + sint sectors < 0
                 \<or> 32767 < uint (ptr_sectors p old) + sint sectors \<longrightarrow>
               bch2_mark_pointer H c cpu p sectors dtype fs_usage jseq flags gc = None))
         \<and> (gen_after (gen old) (ptr_gen (ptr p)) \<noteq> 0 \<longrightarrow>
              bch2_mark_pointer H c cpu p sectors dtype fs_usage jseq flags gc
                = (if alloc_read_done c then Some (c, fs_usage) else None)
              \<and> bucket_of c (ptr_dev (ptr p)) (PTR_BUCKET_NR H (mi_bucket_size ca) (ptr p)) gc
                  = Some old)"
proof (cases "gen_after (gen old) (ptr_gen (ptr p)) = 0")
  case False
  with dev bkt show ?thesis by (simp add: bch2_mark_pointer_def bucket_of_def)
next
  case fresh: True
  let ?t = "uint (ptr_sectors p old) + sint sectors"
  let ?call = "bch2_mark_pointer H c cpu p sectors dtype fs_usage jseq flags gc"
  note key = mark_pointer_fresh_count [OF dev bkt fresh range]
  have "?call = None" if "?t < 0 \<or> 32767 < ?t"
  proof (cases ?call)
    case None
    then show ?thesis .
  next
    case (Some r)
    from key [OF Some] that show ?thesis by auto
  qed
  moreover have "\<exists>new. bucket_of (fst r) (ptr_dev (ptr p))
                         (PTR_BUCKET_NR H (mi_bucket_size ca) (ptr p)) gc = Some new
                  \<and> uint (ptr_sectors p new) = ?t \<and> uint (ptr_sectors p new) \<le> 32767"
    if "?call = Some r" for r
    using key [OF that] by auto
  ultimately show ?thesis using fresh by blast
qed

text \<open>
  The theorem for a bucket holding 32000 dirty sectors and a fresh pointer of 1000 more
  (the call traps), for a bucket holding 500 and a fresh pointer of 100 more (the call
  returns and the bucket holds 600), and for a stale pointer of 1000 sectors into a
  bucket holding 32000 (the call returns and nothing has changed).
\<close>

theorem mark_pointer_sector_count_checked_witness:
  "bch_dev_bkey_exists (fs_of 0 [filling_bucket 32000]) (ptr_dev (ptr (ptr_of 0 0 False 1000 [])))
     = Some (dev_of [filling_bucket 32000])
   \<and> uu_bucket (dev_of [filling_bucket 32000])
        (PTR_BUCKET_NR H0 (mi_bucket_size (dev_of [filling_bucket 32000])) (ptr (ptr_of 0 0 False 1000 []))) False
       = Some (filling_bucket 32000)
   \<and> gen_after (gen (filling_bucket 32000)) (ptr_gen (ptr (ptr_of 0 0 False 1000 []))) = 0
   \<and> - (2 ^ 31) \<le> sint (1000 :: s64) \<and> sint (1000 :: s64) < 2 ^ 31
   \<and> 32767 < uint (ptr_sectors (ptr_of 0 0 False 1000 []) (filling_bucket 32000)) + sint (1000 :: s64)
   \<and> bch2_mark_pointer H0 (fs_of 0 [filling_bucket 32000]) 0 (ptr_of 0 0 False 1000 []) 1000
        BCH_DATA_USER (delta_of 0) 0 0 False = None
   \<and> bch2_mark_pointer H0 (fs_of 0 [filling_bucket 500]) 0 (ptr_of 0 0 False 100 []) 100
        BCH_DATA_USER (delta_of 0) 0 0 False \<noteq> None
   \<and> (\<exists>new. result_bucket
               (bch2_mark_pointer H0 (fs_of 0 [filling_bucket 500]) 0 (ptr_of 0 0 False 100 []) 100
                  BCH_DATA_USER (delta_of 0) 0 0 False) 0 0 False = Some new
          \<and> uint (ptr_sectors (ptr_of 0 0 False 100 []) new) = 600)
   \<and> gen_after (gen (user_bucket 5 32000)) (ptr_gen (ptr (ptr_of 0 3 False 1000 []))) \<noteq> 0
   \<and> bch2_mark_pointer H0 (fs_of 0 [user_bucket 5 32000]) 0 (ptr_of 0 3 False 1000 []) 1000
        BCH_DATA_USER (delta_of 0) 0 0 False
       = Some (fs_of 0 [user_bucket 5 32000], delta_of 0)"
proof -
  let ?p = "ptr_of 0 0 False 1000 []"
  let ?ms = "[filling_bucket 32000]"
  have dev: "bch_dev_bkey_exists (fs_of 0 ms) (ptr_dev (ptr (ptr_of 0 g False n []))) = Some (dev_of ms)"
    for ms g n
    by (simp add: fs_of_dev ptr_of_def)
  have bkt: "uu_bucket (dev_of [m]) (PTR_BUCKET_NR H0 (mi_bucket_size (dev_of [m])) (ptr (ptr_of 0 g False n []))) False
       = Some m" for m g n
    by (simp add: H0_bucket_nr dev_of_bucket)
  have fresh: "gen_after (gen (filling_bucket d)) (ptr_gen (ptr (ptr_of 0 0 False n []))) = 0" for d n
    by (simp add: gen_after_same filling_bucket_def open_bucket_def ptr_of_def)
  have r1: "- (2 ^ 31) \<le> sint (1000 :: s64)" and r2: "sint (1000 :: s64) < 2 ^ 31" by simp_all
  have r3: "- (2 ^ 31) \<le> sint (100 :: s64)" and r4: "sint (100 :: s64) < 2 ^ 31" by simp_all
  have over: "32767 < uint (ptr_sectors ?p (filling_bucket 32000)) + sint (1000 :: s64)"
    by (simp add: ptr_sectors_def ptr_of_def filling_bucket_def open_bucket_def)
  from mark_pointer_sector_count_checked
      [OF dev [of ?ms 0 1000] bkt [of "filling_bucket 32000" 0 1000] r1 r2,
      where cpu = 0 and dtype = BCH_DATA_USER and fs_usage = "delta_of 0" and jseq = 0
        and flags = 0] over fresh
  have trap: "bch2_mark_pointer H0 (fs_of 0 ?ms) 0 ?p 1000 BCH_DATA_USER (delta_of 0) 0 0 False = None"
    by blast
  let ?q = "ptr_of 0 0 False 100 []"
  let ?call = "bch2_mark_pointer H0 (fs_of 0 [filling_bucket 500]) 0 ?q 100
                  BCH_DATA_USER (delta_of 0) 0 0 False"
  have new: "mark_pointer_new (filling_bucket 500) (ptr_cached (ptr ?q)) 100 BCH_DATA_USER 0
             = Some (filling_bucket 600)"
    by (simp add: mark_pointer_new_def checked_add_def filling_bucket_def open_bucket_def ptr_of_def)
  have avail: "False \<or> \<not> bucket_became_unavailable H0 (filling_bucket 500) (filling_bucket 600)"
    by (simp add: bucket_became_unavailable_def H0_def filling_bucket_def open_bucket_def)
  have nr: "PTR_BUCKET_NR H0 (mi_bucket_size (dev_of ms)) (ptr (ptr_of 0 g False n [])) = 0" for ms g n
    by (rule H0_bucket_nr)
  have d: "ptr_dev (ptr (ptr_of 0 g False n [])) = 0" for g n by (simp add: ptr_of_def)
  from result_bucket_mark_pointer
      [OF dev [of "[filling_bucket 500]" 0 100] bkt [of "filling_bucket 500" 0 100] fresh new avail,
       where cpu = 0 and fs_usage = "delta_of 0" and flags = 0]
  obtain r where some: "?call = Some r"
    by (auto simp: result_bucket_def split: option.splits)
  from mark_pointer_sector_count_checked
      [OF dev [of "[filling_bucket 500]" 0 100] bkt [of "filling_bucket 500" 0 100] r3 r4,
      where cpu = 0 and dtype = BCH_DATA_USER and fs_usage = "delta_of 0" and jseq = 0
        and flags = 0] fresh some
  obtain new where b: "bucket_of (fst r) 0 0 False = Some new"
    and u: "uint (ptr_sectors ?q new) = uint (ptr_sectors ?q (filling_bucket 500)) + sint (100 :: s64)"
    unfolding nr d by blast
  have "uint (ptr_sectors ?q (filling_bucket 500)) + sint (100 :: s64) = 600"
    by (simp add: ptr_sectors_def ptr_of_def filling_bucket_def open_bucket_def)
  with u have "uint (ptr_sectors ?q new) = 600" by (simp only:)
  with b have ok: "\<exists>new. result_bucket ?call 0 0 False = Some new
          \<and> uint (ptr_sectors ?q new) = 600"
    unfolding some result_bucket_def by (intro exI [of _ new]) simp
  let ?s = "ptr_of 0 3 False 1000 []"
  have stale: "gen_after (gen (user_bucket 5 32000)) (ptr_gen (ptr ?s)) \<noteq> 0"
    by (simp add: gen_after_def gen_cmp_def user_bucket_def ptr_of_def)
  from mark_pointer_sector_count_checked
      [OF dev [of "[user_bucket 5 32000]" 3 1000] bkt [of "user_bucket 5 32000" 3 1000] r1 r2,
      where cpu = 0 and dtype = BCH_DATA_USER and fs_usage = "delta_of 0" and jseq = 0
        and flags = 0] stale
  have noop: "bch2_mark_pointer H0 (fs_of 0 [user_bucket 5 32000]) 0 ?s 1000
        BCH_DATA_USER (delta_of 0) 0 0 False = Some (fs_of 0 [user_bucket 5 32000], delta_of 0)"
    by (simp add: fs_of_def)
  from dev [of ?ms 0 1000] bkt [of "filling_bucket 32000" 0 1000] fresh [of 32000 1000]
    r1 r2 over trap some ok stale noop
  show ?thesis by simp
qed

text \<open>
  The claim as stated fails: on a device of bucket size 512, a bucket holding 500 dirty
  sectors takes a pointer of 100 more sectors without a trap and then holds 600.
\<close>

theorem mark_pointer_exceeds_bucket_size:
  "mi_bucket_size (dev_of [filling_bucket 500]) = 512
   \<and> bucket_of (fs_of 0 [filling_bucket 500]) 0 0 False = Some (filling_bucket 500)
   \<and> result_bucket
       (bch2_mark_pointer H0 (fs_of 0 [filling_bucket 500]) 0 (ptr_of 0 0 False 100 []) 100
          BCH_DATA_USER (delta_of 0) 0 0 False) 0 0 False
      = Some (filling_bucket 600)"
proof -
  let ?p = "ptr_of 0 0 False 100 []"
  let ?ms = "[filling_bucket 500]"
  have dev: "bch_dev_bkey_exists (fs_of 0 ?ms) (ptr_dev (ptr ?p)) = Some (dev_of ?ms)"
    by (simp add: fs_of_dev ptr_of_def)
  have bkt: "uu_bucket (dev_of ?ms) (PTR_BUCKET_NR H0 (mi_bucket_size (dev_of ?ms)) (ptr ?p)) False
       = Some (filling_bucket 500)"
    by (simp add: H0_bucket_nr dev_of_bucket)
  have fresh: "gen_after (gen (filling_bucket 500)) (ptr_gen (ptr ?p)) = 0"
    by (simp add: gen_after_same filling_bucket_def open_bucket_def ptr_of_def)
  have new: "mark_pointer_new (filling_bucket 500) (ptr_cached (ptr ?p)) 100 BCH_DATA_USER 0
             = Some (filling_bucket 600)"
    by (simp add: mark_pointer_new_def checked_add_def filling_bucket_def open_bucket_def ptr_of_def)
  have avail: "False \<or> \<not> bucket_became_unavailable H0 (filling_bucket 500) (filling_bucket 600)"
    by (simp add: bucket_became_unavailable_def H0_def filling_bucket_def open_bucket_def)
  have nr: "PTR_BUCKET_NR H0 (mi_bucket_size (dev_of ?ms)) (ptr ?p) = 0" by (rule H0_bucket_nr)
  have d: "ptr_dev (ptr ?p) = 0" by (simp add: ptr_of_def)
  have r: "result_bucket
       (bch2_mark_pointer H0 (fs_of 0 ?ms) 0 ?p 100 BCH_DATA_USER (delta_of 0) 0 0 False) 0 0 False
      = Some (filling_bucket 600)"
    using result_bucket_mark_pointer [OF dev bkt fresh new avail, of 0 "delta_of 0" 0]
    unfolding nr d .
  have "bucket_of (fs_of 0 ?ms) 0 0 False = Some (filling_bucket 500)"
    by (simp add: bucket_of_def fs_of_dev dev_of_bucket)
  moreover have "mi_bucket_size (dev_of ?ms) = 512" by (simp add: dev_of_def)
  ultimately show ?thesis using r by blast
qed

subsection \<open>Extents with a dead stripe reference\<close>




















lemma bucket_of_Some:
  "bucket_of c d b g = Some m \<longleftrightarrow>
     d < length (devs c) \<and> uu_bucket (devs c ! d) b g = Some m"
  by (simp add: bucket_of_def bch_dev_bkey_exists_def)







subsection \<open>Live and GC marking\<close>

lemma map_update_same:
  assumes "i < length xs \<Longrightarrow> f x = f (xs ! i)"
  shows "map f (xs[i := x]) = map f xs"
proof (cases "i < length xs")
  case True
  with assms have "(map f xs)[i := f x] = map f xs" by (simp add: list_update_same_conv)
  then show ?thesis by (simp add: map_update)
next
  case False
  then have "xs[i := x] = xs" by (intro list_update_beyond) simp
  then show ?thesis by simp
qed

lemma same_outside_refl: "same_outside gc c c"
  by (simp add: same_outside_def)

lemma same_outside_trans:
  "same_outside gc c c1 \<Longrightarrow> same_outside gc c1 c2 \<Longrightarrow> same_outside gc c c2"
  by (simp add: same_outside_def)

lemma same_outside_set_bucket_mark: "same_outside gc c (set_bucket_mark c dev b gc new)"
  by (simp add: same_outside_def side_of_def fs_static_def set_bucket_mark_def Let_def
      map_update_same)

lemma same_outside_dev_usage_update:
  "same_outside gc c (fst (bch2_dev_usage_update H c cpu dev fu old new gc))"
  by (simp add: same_outside_def side_of_def fs_static_def bch2_dev_usage_update_def Let_def
      map_update_same)

lemma same_outside_set_stripe: "same_outside gc c (set_stripe c gc idx m)"
  by (simp add: same_outside_def side_of_def fs_static_def set_stripe_def)

lemma same_outside_set_this_cpu_usage: "same_outside gc c (set_this_cpu_usage c gc cpu fu)"
  by (simp add: same_outside_def side_of_def fs_static_def set_this_cpu_usage_def)

lemma usage_set_bucket_mark: "usage (set_bucket_mark c dev b gc new) = usage c"
  by (simp add: set_bucket_mark_def Let_def)

lemma usage_dev_usage_update:
  "usage (fst (bch2_dev_usage_update H c cpu dev fu old new gc)) = usage c"
  by (simp add: bch2_dev_usage_update_def Let_def)

lemma usage_set_stripe: "usage (set_stripe c gc idx m) = usage c"
  by (simp add: set_stripe_def)

lemma cmpxchg_frame:
  assumes "bucket_data_cmpxchg H c cpu dev b gc fu expr = Some (c', fu', old)"
  shows "same_outside gc c c' \<and> usage c' = usage c"
proof -
  from assms obtain new where
    c': "c' = fst (bch2_dev_usage_update H (set_bucket_mark c dev b gc new) cpu dev fu old new gc)"
    by (auto simp: bucket_data_cmpxchg_def split_def Let_def split: Option.bind_splits)
  show ?thesis unfolding c'
    using same_outside_trans [OF same_outside_set_bucket_mark same_outside_dev_usage_update]
    by (simp add: usage_dev_usage_update usage_set_bucket_mark)
qed

lemma mark_alloc_frame:
  assumes "uu_bch2_mark_alloc_bucket H c cpu dev b owned gc = Some c'"
  shows "same_outside gc c c'"
proof -
  from assms obtain c1 fu1 old where
    x: "bucket_data_cmpxchg H c cpu dev b gc (usage c gc cpu)
          (\<lambda>m. Some (m\<lparr>owned_by_allocator := owned\<rparr>)) = Some (c1, fu1, old)"
    and c': "c' = set_this_cpu_usage c1 gc cpu fu1"
    by (auto simp: uu_bch2_mark_alloc_bucket_def split: Option.bind_splits if_splits)
  from cmpxchg_frame [OF x] same_outside_set_this_cpu_usage show ?thesis
    unfolding c' by (blast intro: same_outside_trans)
qed

lemma mark_metadata_frame:
  assumes "uu_bch2_mark_metadata_bucket H c cpu dev b t sectors gc = Some c'"
  shows "same_outside gc c c'"
proof -
  from assms obtain c1 fu1 old fu3 expr where
    x: "bucket_data_cmpxchg H c cpu dev b gc (usage c gc cpu) expr = Some (c1, fu1, old)"
    and c': "c' = set_this_cpu_usage c1 gc cpu fu3"
    by (auto simp: uu_bch2_mark_metadata_bucket_def Let_def split: Option.bind_splits if_splits)
  from cmpxchg_frame [OF x] same_outside_set_this_cpu_usage show ?thesis
    unfolding c' by (blast intro: same_outside_trans)
qed

lemma mark_pointer_cases:
  assumes "bch2_mark_pointer H c cpu p sectors dtype fu jseq flags gc = Some (c', fu')"
  obtains (stale) ca old where
      "bch_dev_bkey_exists c (ptr_dev (ptr p)) = Some ca"
      "uu_bucket ca (PTR_BUCKET_NR H (mi_bucket_size ca) (ptr p)) gc = Some old"
      "gen_after (gen old) (ptr_gen (ptr p)) \<noteq> 0" "c' = c" "fu' = fu"
    | (fresh) ca old new where
      "bch_dev_bkey_exists c (ptr_dev (ptr p)) = Some ca"
      "uu_bucket ca (PTR_BUCKET_NR H (mi_bucket_size ca) (ptr p)) gc = Some old"
      "gen_after (gen old) (ptr_gen (ptr p)) = 0"
      "mark_pointer_new old (ptr_cached (ptr p)) sectors dtype jseq = Some new"
      "bch2_dev_usage_update H
         (set_bucket_mark c (ptr_dev (ptr p)) (PTR_BUCKET_NR H (mi_bucket_size ca) (ptr p)) gc new)
         cpu (ptr_dev (ptr p)) fu old new gc = (c', fu')"
proof -
  from assms obtain ca where ca: "bch_dev_bkey_exists c (ptr_dev (ptr p)) = Some ca"
    by (cases "bch_dev_bkey_exists c (ptr_dev (ptr p))") (simp_all add: bch2_mark_pointer_def)
  let ?b = "PTR_BUCKET_NR H (mi_bucket_size ca) (ptr p)"
  from assms ca obtain old where old: "uu_bucket ca ?b gc = Some old"
    by (cases "uu_bucket ca ?b gc") (simp_all add: bch2_mark_pointer_def Let_def)
  show thesis
  proof (cases "gen_after (gen old) (ptr_gen (ptr p)) = 0")
    case False
    with assms ca old have "c' = c" "fu' = fu"
      by (simp_all add: bch2_mark_pointer_def Let_def split: if_splits)
    with ca old False show thesis by (rule stale)
  next
    case True
    with assms ca old obtain new where
      new: "mark_pointer_new old (ptr_cached (ptr p)) sectors dtype jseq = Some new"
      by (cases "mark_pointer_new old (ptr_cached (ptr p)) sectors dtype jseq")
         (simp_all add: bch2_mark_pointer_def Let_def)
    with assms ca old True have
      "bch2_dev_usage_update H (set_bucket_mark c (ptr_dev (ptr p)) ?b gc new)
         cpu (ptr_dev (ptr p)) fu old new gc = (c', fu')"
      by (simp add: bch2_mark_pointer_def Let_def split: if_splits)
    with ca old True new show thesis by (rule fresh)
  qed
qed

lemma mark_pointer_frame:
  assumes "bch2_mark_pointer H c cpu p sectors dtype fu jseq flags gc = Some (c', fu')"
  shows "same_outside gc c c' \<and> usage c' = usage c"
  using assms
proof (cases rule: mark_pointer_cases)
  case stale
  then show ?thesis by (simp add: same_outside_refl)
next
  case (fresh ca old new)
  from fresh(5) have c': "c' = fst (bch2_dev_usage_update H
         (set_bucket_mark c (ptr_dev (ptr p)) (PTR_BUCKET_NR H (mi_bucket_size ca) (ptr p)) gc new)
         cpu (ptr_dev (ptr p)) fu old new gc)" by simp
  show ?thesis unfolding c'
    using same_outside_trans [OF same_outside_set_bucket_mark same_outside_dev_usage_update]
    by (simp add: usage_dev_usage_update usage_set_bucket_mark)
qed

lemma mark_stripe_ptr_outside:
  assumes "bch2_mark_stripe_ptr H c e sectors flags adj red gc = Some (c', adj', red', ret)"
  shows "same_outside gc c c' \<and> usage c' = usage c"
proof -
  from assms consider "c' = c" | m where "c' = set_stripe c gc (ec_idx e) m"
    by (auto simp: bch2_mark_stripe_ptr_def Let_def
        split: option.splits Option.bind_splits if_splits)
  then show ?thesis
    by cases (simp_all add: same_outside_refl same_outside_set_stripe usage_set_stripe)
qed

lemma mark_stripe_ptrs_outside:
  "mark_stripe_ptrs H c es sectors flags adj red gc = Some (c', adj', red', ret)
   \<Longrightarrow> same_outside gc c c' \<and> usage c' = usage c"
proof (induction es arbitrary: c adj red)
  case Nil
  then show ?case by (simp add: same_outside_refl)
next
  case (Cons e es)
  from Cons.prems obtain c1 adj1 red1 ret1 where
    s: "bch2_mark_stripe_ptr H c e sectors flags adj red gc = Some (c1, adj1, red1, ret1)"
    and r: "if ret1 \<noteq> 0 then c' = c1
            else mark_stripe_ptrs H c1 es sectors flags adj1 red1 gc = Some (c', adj', red', ret)"
    by (auto split: Option.bind_splits if_splits)
  from mark_stripe_ptr_outside [OF s] have 1: "same_outside gc c c1" "usage c1 = usage c" by auto
  show ?case
  proof (cases "ret1 = 0")
    case True
    with r Cons.IH have "same_outside gc c1 c' \<and> usage c' = usage c1" by simp
    with 1 show ?thesis by (auto intro: same_outside_trans)
  next
    case False
    with r 1 show ?thesis by simp
  qed
qed

lemma mark_ptr_stripes_outside:
  assumes "mark_ptr_stripes H c p ds flags red gc = Some (c', adj', red', ret)"
  shows "same_outside gc c c' \<and> usage c' = usage c"
  using assms mark_stripe_ptrs_outside
  by (auto simp: mark_ptr_stripes_def same_outside_refl split: if_splits)

lemma mark_extent_ptr_outside:
  assumes "mark_extent_ptr H c cpu p sectors dtype fu jseq flags gc acc = Some (c', fu', acc', ret)"
  shows "same_outside gc c c' \<and> usage c' = usage c"
proof -
  from assms obtain ds c1 fu1 adj red where
    mp: "bch2_mark_pointer H c cpu p ds dtype fu jseq flags gc = Some (c1, fu1)"
    and ms: "mark_ptr_stripes H c1 p ds flags (acc_ec_redundancy acc) gc = Some (c', adj, red, ret)"
    by (auto simp: mark_extent_ptr_def split: option.splits)
  from mark_pointer_frame [OF mp] mark_ptr_stripes_outside [OF ms]
  show ?thesis by (auto intro: same_outside_trans)
qed

lemma mark_extent_ptrs_outside:
  "mark_extent_ptrs H c cpu ps sectors dtype fu jseq flags gc acc = Some (c', fu', acc', ret)
   \<Longrightarrow> same_outside gc c c' \<and> usage c' = usage c"
proof (induction ps arbitrary: c fu acc)
  case Nil
  then show ?case by (simp add: same_outside_refl)
next
  case (Cons p ps)
  from Cons.prems obtain c1 fu1 acc1 ret1 where
    s: "mark_extent_ptr H c cpu p sectors dtype fu jseq flags gc acc = Some (c1, fu1, acc1, ret1)"
    and r: "if ret1 \<noteq> 0 then c' = c1
            else mark_extent_ptrs H c1 cpu ps sectors dtype fu1 jseq flags gc acc1
                 = Some (c', fu', acc', ret)"
    by (auto split: option.splits if_splits)
  from mark_extent_ptr_outside [OF s] have 1: "same_outside gc c c1" "usage c1 = usage c" by auto
  show ?case
  proof (cases "ret1 = 0")
    case True
    with r Cons.IH have "same_outside gc c1 c' \<and> usage c' = usage c1" by simp
    with 1 show ?thesis by (auto intro: same_outside_trans)
  next
    case False
    with r 1 show ?thesis by simp
  qed
qed

lemma mark_extent_outside:
  assumes "bch2_mark_extent H c cpu ps sectors dtype fu jseq flags gc = Some (c', fu', ret)"
  shows "same_outside gc c c' \<and> usage c' = usage c"
proof -
  from assms obtain fu1 acc ret1 where
    "mark_extent_ptrs H c cpu ps sectors dtype fu jseq flags gc acc0 = Some (c', fu1, acc, ret1)"
    by (auto simp: bch2_mark_extent_def Let_def split: Option.bind_splits if_splits)
  then show ?thesis by (rule mark_extent_ptrs_outside)
qed

lemma set_stripe_ptrs_step:
  assumes "bucket_set_stripe_ptrs H c cpu (p # ps) enabled fu jseq gc = Some (c', fu')"
  obtains ca c1 fu1 old where
    "bch_dev_bkey_exists c (ptr_dev p) = Some ca"
    "\<not> ptr_stale H ca p"
    "bucket_data_cmpxchg H c cpu (ptr_dev p) (PTR_BUCKET_NR H (mi_bucket_size ca) p) gc fu
       (\<lambda>m. Some (if jseq \<noteq> 0
                   then m\<lparr>stripe := enabled, journal_seq_valid := True,
                          journal_seq := ucast jseq\<rparr>
                   else m\<lparr>stripe := enabled\<rparr>)) = Some (c1, fu1, old)"
    "stripe old \<noteq> enabled"
    "bucket_set_stripe_ptrs H c1 cpu ps enabled fu1 jseq gc = Some (c', fu')"
proof -
  let ?e = "\<lambda>m. Some (if jseq \<noteq> 0
                   then m\<lparr>stripe := enabled, journal_seq_valid := True,
                          journal_seq := ucast jseq\<rparr>
                   else m\<lparr>stripe := enabled\<rparr>)"
  from assms obtain ca where ca: "bch_dev_bkey_exists c (ptr_dev p) = Some ca"
    by (cases "bch_dev_bkey_exists c (ptr_dev p)") simp_all
  let ?b = "PTR_BUCKET_NR H (mi_bucket_size ca) p"
  from assms ca have st: "\<not> ptr_stale H ca p"
    by (simp add: Let_def split: if_splits)
  from assms ca st obtain r where
    x: "bucket_data_cmpxchg H c cpu (ptr_dev p) ?b gc fu ?e = Some r"
    by (cases "bucket_data_cmpxchg H c cpu (ptr_dev p) ?b gc fu ?e") (simp_all add: Let_def)
  obtain c1 fu1 old where r: "r = (c1, fu1, old)" by (cases r)
  from assms ca st x r have
    "stripe old \<noteq> enabled"
    "bucket_set_stripe_ptrs H c1 cpu ps enabled fu1 jseq gc = Some (c', fu')"
    by (simp_all add: Let_def split: if_splits)
  with ca st x r that show thesis by blast
qed

lemma set_stripe_ptrs_outside:
  "bucket_set_stripe_ptrs H c cpu ps enabled fu jseq gc = Some (c', fu')
   \<Longrightarrow> same_outside gc c c' \<and> usage c' = usage c"
proof (induction ps arbitrary: c fu)
  case Nil
  then show ?case by (simp add: same_outside_refl)
next
  case (Cons p ps)
  from Cons.prems show ?case
  proof (rule set_stripe_ptrs_step)
    fix ca c1 fu1 old
    assume x: "bucket_data_cmpxchg H c cpu (ptr_dev p) (PTR_BUCKET_NR H (mi_bucket_size ca) p) gc fu
       (\<lambda>m. Some (if jseq \<noteq> 0
                   then m\<lparr>stripe := enabled, journal_seq_valid := True,
                          journal_seq := ucast jseq\<rparr>
                   else m\<lparr>stripe := enabled\<rparr>)) = Some (c1, fu1, old)"
      and r: "bucket_set_stripe_ptrs H c1 cpu ps enabled fu1 jseq gc = Some (c', fu')"
    from cmpxchg_frame [OF x] Cons.IH [OF r] show ?thesis by (auto intro: same_outside_trans)
  qed
qed

lemma mark_stripe_outside:
  assumes "bch2_mark_stripe H c cpu idx v inserting fu jseq flags gc = Some (c', fu', ret)"
  shows "same_outside gc c c' \<and> usage c' = usage c"
proof -
  from assms consider "c' = c"
    | m ps where "bucket_set_stripe_ptrs H (set_stripe c gc idx m) cpu ps inserting fu 0 gc
                    = Some (c', fu')"
    by (auto simp: bch2_mark_stripe_def bucket_set_stripe_def Let_def
        split: option.splits Option.bind_splits if_splits)
  then show ?thesis
  proof cases
    case 1
    then show ?thesis by (simp add: same_outside_refl)
  next
    case 2
    from set_stripe_ptrs_outside [OF 2] same_outside_set_stripe [of gc c idx m]
    show ?thesis by (auto intro: same_outside_trans simp: usage_set_stripe)
  qed
qed

lemma mark_key_outside:
  assumes "uu_bch2_mark_key H c cpu k inserting sectors fu jseq flags gc = Some (c', fu', ret)"
  shows "same_outside gc c c' \<and> usage c' = usage c"
proof (cases k)
  case (KEY_TYPE_btree_ptr ps)
  with assms show ?thesis by (simp add: uu_bch2_mark_key_def) (rule mark_extent_outside)
next
  case (KEY_TYPE_extent ps)
  with assms show ?thesis by (simp add: uu_bch2_mark_key_def) (rule mark_extent_outside)
next
  case (KEY_TYPE_stripe idx v)
  with assms show ?thesis by (simp add: uu_bch2_mark_key_def) (rule mark_stripe_outside)
next
  case KEY_TYPE_alloc
  with assms show ?thesis by (simp add: uu_bch2_mark_key_def same_outside_refl)
next
  case (KEY_TYPE_reservation n)
  with assms show ?thesis by (simp add: uu_bch2_mark_key_def Let_def same_outside_refl)
next
  case KEY_TYPE_other
  with assms show ?thesis by (simp add: uu_bch2_mark_key_def same_outside_refl)
qed

lemma same_outside_gc_visited: "same_outside gc c c' \<Longrightarrow> gc_visited c' pos = gc_visited c pos"
  by (simp add: same_outside_def fs_static_def gc_visited_def)

lemma mark_alloc_passes:
  assumes "bch2_mark_alloc_bucket H c cpu dev b owned pos flags = Some c'"
  shows "if flags AND BCH_BUCKET_MARK_GC \<noteq> 0
         then side_of c' False = side_of c False
              \<and> uu_bch2_mark_alloc_bucket H c cpu dev b owned True = Some c'
         else \<exists>c1. uu_bch2_mark_alloc_bucket H c cpu dev b owned False = Some c1
                \<and> side_of c1 True = side_of c True
                \<and> side_of c' False = side_of c1 False
                \<and> (if gc_visited c pos
                    then uu_bch2_mark_alloc_bucket H c1 cpu dev b owned True = Some c'
                    else c' = c1)"
proof (cases "flags AND BCH_BUCKET_MARK_GC = 0")
  case False
  with assms have g: "uu_bch2_mark_alloc_bucket H c cpu dev b owned True = Some c'"
    by (simp add: bch2_mark_alloc_bucket_def)
  from mark_alloc_frame [OF g] have "side_of c' False = side_of c False"
    by (simp add: same_outside_def)
  with g False show ?thesis by simp
next
  case True
  with assms obtain c1 where
    l: "uu_bch2_mark_alloc_bucket H c cpu dev b owned False = Some c1"
    and r: "(if gc_visited c1 pos then uu_bch2_mark_alloc_bucket H c1 cpu dev b owned True
             else Some c1) = Some c'"
    by (auto simp: bch2_mark_alloc_bucket_def split: Option.bind_splits)
  from mark_alloc_frame [OF l] have f: "same_outside False c c1" .
  then have s1: "side_of c1 True = side_of c True" by (simp add: same_outside_def)
  from same_outside_gc_visited [OF f] have v: "gc_visited c1 pos = gc_visited c pos" .
  have "side_of c' False = side_of c1 False"
  proof (cases "gc_visited c pos")
    case True
    with r v have "uu_bch2_mark_alloc_bucket H c1 cpu dev b owned True = Some c'" by simp
    from mark_alloc_frame [OF this] show ?thesis by (simp add: same_outside_def)
  next
    case False
    with r v show ?thesis by simp
  qed
  with True l s1 r v show ?thesis by auto
qed

lemma mark_metadata_passes:
  assumes "bch2_mark_metadata_bucket H True c cpu dev b t sectors pos flags = Some c'"
  shows "if flags AND BCH_BUCKET_MARK_GC \<noteq> 0
         then side_of c' False = side_of c False
              \<and> uu_bch2_mark_metadata_bucket H c cpu dev b t sectors True = Some c'
         else \<exists>c1. uu_bch2_mark_metadata_bucket H c cpu dev b t sectors False = Some c1
                \<and> side_of c1 True = side_of c True
                \<and> side_of c' False = side_of c1 False
                \<and> (if gc_visited c pos
                    then uu_bch2_mark_metadata_bucket H c1 cpu dev b t sectors True = Some c'
                    else c' = c1)"
proof (cases "flags AND BCH_BUCKET_MARK_GC = 0")
  case False
  with assms have g: "uu_bch2_mark_metadata_bucket H c cpu dev b t sectors True = Some c'"
    by (simp add: bch2_mark_metadata_bucket_def split: if_splits)
  from mark_metadata_frame [OF g] have "side_of c' False = side_of c False"
    by (simp add: same_outside_def)
  with g False show ?thesis by simp
next
  case True
  with assms obtain c1 where
    l: "uu_bch2_mark_metadata_bucket H c cpu dev b t sectors False = Some c1"
    and r: "(if gc_visited c1 pos then uu_bch2_mark_metadata_bucket H c1 cpu dev b t sectors True
             else Some c1) = Some c'"
    by (auto simp: bch2_mark_metadata_bucket_def split: Option.bind_splits if_splits)
  from mark_metadata_frame [OF l] have f: "same_outside False c c1" .
  then have s1: "side_of c1 True = side_of c True" by (simp add: same_outside_def)
  from same_outside_gc_visited [OF f] have v: "gc_visited c1 pos = gc_visited c pos" .
  have "side_of c' False = side_of c1 False"
  proof (cases "gc_visited c pos")
    case True
    with r v have "uu_bch2_mark_metadata_bucket H c1 cpu dev b t sectors True = Some c'" by simp
    from mark_metadata_frame [OF this] show ?thesis by (simp add: same_outside_def)
  next
    case False
    with r v show ?thesis by simp
  qed
  with True l s1 r v show ?thesis by auto
qed

lemma mark_key_gc_pass_frame:
  assumes "uu_bch2_mark_key H c cpu k inserting sectors fu jseq flags True = Some (c2, fu2, ret)"
  shows "side_of (set_this_cpu_usage c2 True cpu fu2) False = side_of c False"
proof -
  from mark_key_outside [OF assms] have "same_outside True c c2" by simp
  with same_outside_set_this_cpu_usage [of True c2 cpu fu2]
  have "same_outside True c (set_this_cpu_usage c2 True cpu fu2)"
    by (blast intro: same_outside_trans)
  then show ?thesis by (simp add: same_outside_def)
qed

lemma mark_key_locked_passes:
  assumes "bch2_mark_key_locked H c cpu k inserting sectors pos fs_usage jseq flags
           = Some (c', fs_usage', ret)"
  shows "if flags AND BCH_BUCKET_MARK_GC \<noteq> 0
         then side_of c' False = side_of c False \<and> fs_usage' = fs_usage
              \<and> (\<exists>c2 fu2. uu_bch2_mark_key H c cpu k inserting sectors (usage c True cpu)
                              (ucast jseq) flags True = Some (c2, fu2, ret)
                     \<and> c' = set_this_cpu_usage c2 True cpu fu2)
         else \<exists>c1 fu1 ret1 cl.
                uu_bch2_mark_key H c cpu k inserting sectors
                  (case fs_usage of Some fu \<Rightarrow> fu | None \<Rightarrow> usage c False cpu)
                  (ucast jseq) flags False = Some (c1, fu1, ret1)
                \<and> cl = (case fs_usage of Some fu \<Rightarrow> c1
                                        | None \<Rightarrow> set_this_cpu_usage c1 False cpu fu1)
                \<and> fs_usage' = (case fs_usage of Some fu \<Rightarrow> Some fu1 | None \<Rightarrow> None)
                \<and> side_of cl True = side_of c True
                \<and> side_of c' False = side_of cl False
                \<and> (if ret1 = 0 \<and> gc_visited c pos
                    then \<exists>c2 fu2. uu_bch2_mark_key H cl cpu k inserting sectors (usage cl True cpu)
                                     (ucast jseq) flags True = Some (c2, fu2, ret)
                             \<and> c' = set_this_cpu_usage c2 True cpu fu2
                    else c' = cl \<and> ret = ret1)"
proof (cases "flags AND BCH_BUCKET_MARK_GC = 0")
  case False
  with assms obtain c2 fu2 where
    g: "uu_bch2_mark_key H c cpu k inserting sectors (usage c True cpu) (ucast jseq) flags True
        = Some (c2, fu2, ret)"
    and c': "c' = set_this_cpu_usage c2 True cpu fu2" and fu: "fs_usage' = fs_usage"
    by (auto simp: bch2_mark_key_locked_def split: Option.bind_splits)
  from mark_key_gc_pass_frame [OF g] c' have "side_of c' False = side_of c False" by simp
  with False g c' fu show ?thesis by simp
next
  case True
  let ?fu = "case fs_usage of Some fu \<Rightarrow> fu | None \<Rightarrow> usage c False cpu"
  from assms True obtain r where
    l: "uu_bch2_mark_key H c cpu k inserting sectors ?fu (ucast jseq) flags False = Some r"
    by (cases "uu_bch2_mark_key H c cpu k inserting sectors ?fu (ucast jseq) flags False")
       (auto simp: bch2_mark_key_locked_def split: option.splits)
  obtain c1 fu1 ret1 where r: "r = (c1, fu1, ret1)" by (cases r)
  define cl where "cl = (case fs_usage of Some fu \<Rightarrow> c1
                                        | None \<Rightarrow> set_this_cpu_usage c1 False cpu fu1)"
  define fuo where "fuo = (case fs_usage of Some fu \<Rightarrow> Some fu1 | None \<Rightarrow> None)"
  from assms True l r have rest:
    "(if ret1 \<noteq> 0 then Some (cl, fuo, ret1)
      else if gc_visited cl pos
      then do {
         (c2, fu2, ret2) \<leftarrow>
           uu_bch2_mark_key H cl cpu k inserting sectors (usage cl True cpu)
             (ucast jseq) flags True;
         Some (set_this_cpu_usage c2 True cpu fu2, fuo, ret2)
       }
      else Some (cl, fuo, 0)) = Some (c', fs_usage', ret)"
    by (cases fs_usage) (simp_all add: bch2_mark_key_locked_def cl_def fuo_def split del: if_split cong: if_cong)
  from mark_key_outside [OF l [unfolded r]] have f1: "same_outside False c c1" by simp
  have f: "same_outside False c cl"
  proof (cases fs_usage)
    case None
    with f1 same_outside_set_this_cpu_usage [of False c1 cpu fu1] show ?thesis
      by (auto simp: cl_def intro: same_outside_trans)
  next
    case (Some fu)
    with f1 show ?thesis by (simp add: cl_def)
  qed
  then have s1: "side_of cl True = side_of c True" by (simp add: same_outside_def)
  from same_outside_gc_visited [OF f] have v: "gc_visited cl pos = gc_visited c pos" .
  show ?thesis
  proof (cases "ret1 = 0 \<and> gc_visited c pos")
    case False
    with rest v have "c' = cl" "fs_usage' = fuo" "ret = ret1" by (auto split: if_splits)
    with True l r s1 False show ?thesis
      by (auto simp: cl_def fuo_def)
  next
    case t: True
    with rest v obtain c2 fu2 where
      g: "uu_bch2_mark_key H cl cpu k inserting sectors (usage cl True cpu) (ucast jseq) flags True
          = Some (c2, fu2, ret)"
      and c': "c' = set_this_cpu_usage c2 True cpu fu2" and fu: "fs_usage' = fuo"
      by (auto split: Option.bind_splits)
    from mark_key_gc_pass_frame [OF g] c' have "side_of c' False = side_of cl False" by simp
    with True l r s1 t g c' fu show ?thesis
      by (auto simp: cl_def fuo_def)
  qed
qed

lemma dev_usage_counters_replicas:
  "fst (dev_usage_counters H ca fu du old new) (Replicas_data r t) = fu (Replicas_data r t)"
  by (simp add: dev_usage_counters_def account_bucket_def counter_add_def Let_def split_def)

lemma mark_metadata_shard:
  assumes dev: "bch_dev_bkey_exists c dev = Some ca" and bkt: "uu_bucket ca b gc = Some old"
    and add: "checked_add (dirty_sectors old) sectors = Some d"
    and t: "t = BCH_DATA_SB \<or> t = BCH_DATA_JOURNAL"
  shows "\<exists>c'. uu_bch2_mark_metadata_bucket H c cpu dev b t sectors gc = Some c'
           \<and> usage c' gc cpu (Replicas_data 0 t)
               = usage c gc cpu (Replicas_data 0 t) + ucast sectors"
  using assms
  by (auto simp: uu_bch2_mark_metadata_bucket_def bucket_data_cmpxchg_def split_def Let_def
      set_this_cpu_usage_def counter_add_def bch2_dev_usage_update_def
      dev_usage_counters_replicas)

lemma metadata_sb_example:
  "\<exists>c'. uu_bch2_mark_metadata_bucket H0 (fs_of 0 [open_bucket 0]) 0 0 0 BCH_DATA_SB 8 gc = Some c'
     \<and> usage c' gc 0 (Replicas_data 0 BCH_DATA_SB) = 8"
proof -
  have add: "checked_add (dirty_sectors (open_bucket 0)) (8 :: u32) = Some 8"
    by (simp add: checked_add_def open_bucket_def)
  have t: "BCH_DATA_SB = BCH_DATA_SB \<or> BCH_DATA_SB = BCH_DATA_JOURNAL" by simp
  from mark_metadata_shard [OF fs_of_dev dev_of_bucket add t, where H = H0 and cpu = 0]
  show ?thesis by (simp add: fs_of_def)
qed

text \<open>
  C1, as the code has it. Each of the three marking calls, when it returns, has run at
  most two passes: the live pass if and only if the caller did not set the GC flag, then
  the GC pass if and only if the caller set the GC flag or \<open>gc_visited(pos)\<close> holds (for
  \<open>bch2_mark_key_locked\<close> only when the live pass returned 0; its error is returned at
  once). With the GC flag the call is the GC pass alone and the live side is as before
  the call. The live pass leaves the GC side as it was and the GC pass leaves the live
  side as it was; the live pass of \<open>bch2_mark_key_locked\<close> counts into the caller's
  \<open>fs_usage\<close> when there is one and into this CPU's live shard otherwise.
\<close>

theorem marking_passes:
  "(bch2_mark_alloc_bucket H c cpu dev b owned pos flags = Some c' \<longrightarrow>
      (if flags AND BCH_BUCKET_MARK_GC \<noteq> 0
       then side_of c' False = side_of c False
            \<and> uu_bch2_mark_alloc_bucket H c cpu dev b owned True = Some c'
       else \<exists>c1. uu_bch2_mark_alloc_bucket H c cpu dev b owned False = Some c1
              \<and> side_of c1 True = side_of c True
              \<and> side_of c' False = side_of c1 False
              \<and> (if gc_visited c pos
                  then uu_bch2_mark_alloc_bucket H c1 cpu dev b owned True = Some c'
                  else c' = c1)))
   \<and> (bch2_mark_metadata_bucket H True c cpu dev b t sectors pos flags = Some c'' \<longrightarrow>
      (if flags AND BCH_BUCKET_MARK_GC \<noteq> 0
       then side_of c'' False = side_of c False
            \<and> uu_bch2_mark_metadata_bucket H c cpu dev b t sectors True = Some c''
       else \<exists>c1. uu_bch2_mark_metadata_bucket H c cpu dev b t sectors False = Some c1
              \<and> side_of c1 True = side_of c True
              \<and> side_of c'' False = side_of c1 False
              \<and> (if gc_visited c pos
                  then uu_bch2_mark_metadata_bucket H c1 cpu dev b t sectors True = Some c''
                  else c'' = c1)))
   \<and> (bch2_mark_key_locked H c cpu k inserting sectors' pos fs_usage jseq flags
        = Some (c''', fs_usage', ret) \<longrightarrow>
      (if flags AND BCH_BUCKET_MARK_GC \<noteq> 0
       then side_of c''' False = side_of c False \<and> fs_usage' = fs_usage
            \<and> (\<exists>c2 fu2. uu_bch2_mark_key H c cpu k inserting sectors' (usage c True cpu)
                            (ucast jseq) flags True = Some (c2, fu2, ret)
                   \<and> c''' = set_this_cpu_usage c2 True cpu fu2)
       else \<exists>c1 fu1 ret1 cl.
              uu_bch2_mark_key H c cpu k inserting sectors'
                (case fs_usage of Some fu \<Rightarrow> fu | None \<Rightarrow> usage c False cpu)
                (ucast jseq) flags False = Some (c1, fu1, ret1)
              \<and> cl = (case fs_usage of Some fu \<Rightarrow> c1
                                      | None \<Rightarrow> set_this_cpu_usage c1 False cpu fu1)
              \<and> fs_usage' = (case fs_usage of Some fu \<Rightarrow> Some fu1 | None \<Rightarrow> None)
              \<and> side_of cl True = side_of c True
              \<and> side_of c''' False = side_of cl False
              \<and> (if ret1 = 0 \<and> gc_visited c pos
                  then \<exists>c2 fu2. uu_bch2_mark_key H cl cpu k inserting sectors' (usage cl True cpu)
                                   (ucast jseq) flags True = Some (c2, fu2, ret)
                           \<and> c''' = set_this_cpu_usage c2 True cpu fu2
                  else c''' = cl \<and> ret = ret1)))"
  using mark_alloc_passes [of H c cpu dev b owned pos flags c']
    mark_metadata_passes [of H c cpu dev b t sectors pos flags c'']
    mark_key_locked_passes [of H c cpu k inserting sectors' pos fs_usage jseq flags c''' fs_usage' ret]
  by blast

text \<open>
  The claim as stated fails: marking 8 sectors of superblock in bucket 0 with the GC flag
  leaves the live shard's counter \<open>replicas[0].data[BCH_DATA_SB]\<close> at 0 and raises the GC
  shard's to 8. The same call without the flag, at a position GC has not visited, raises
  the live shard's counter to 8.
\<close>

theorem mark_gc_flag_skips_live_shard:
  "result_counter
     (bch2_mark_metadata_bucket H0 True (fs_of 0 [open_bucket 0]) 0 0 0 BCH_DATA_SB 8 0
        BCH_BUCKET_MARK_GC)
     False 0 (Replicas_data 0 BCH_DATA_SB) = Some 0
   \<and> result_counter
       (bch2_mark_metadata_bucket H0 True (fs_of 0 [open_bucket 0]) 0 0 0 BCH_DATA_SB 8 0
          BCH_BUCKET_MARK_GC)
       True 0 (Replicas_data 0 BCH_DATA_SB) = Some 8
   \<and> result_counter
       (bch2_mark_metadata_bucket H0 True (fs_of 0 [open_bucket 0]) 0 0 0 BCH_DATA_SB 8 1 0)
       False 0 (Replicas_data 0 BCH_DATA_SB) = Some 8"
proof -
  let ?c = "fs_of 0 [open_bucket 0]"
  have gcf: "BCH_BUCKET_MARK_GC AND BCH_BUCKET_MARK_GC \<noteq> 0"
    by (simp add: BCH_BUCKET_MARK_GC_def)
  from metadata_sb_example [of True] obtain c' where
    g: "uu_bch2_mark_metadata_bucket H0 ?c 0 0 0 BCH_DATA_SB 8 True = Some c'"
    and u: "usage c' True 0 (Replicas_data 0 BCH_DATA_SB) = 8" by blast
  from mark_metadata_frame [OF g] have "usage c' False = usage ?c False"
    by (simp add: same_outside_def side_of_def)
  then have l: "usage c' False 0 (Replicas_data 0 BCH_DATA_SB) = 0" by (simp add: fs_of_def)
  have call: "bch2_mark_metadata_bucket H0 True ?c 0 0 0 BCH_DATA_SB 8 0 BCH_BUCKET_MARK_GC = Some c'"
    using g gcf by (simp add: bch2_mark_metadata_bucket_def)
  from metadata_sb_example [of False] obtain c1 where
    g1: "uu_bch2_mark_metadata_bucket H0 ?c 0 0 0 BCH_DATA_SB 8 False = Some c1"
    and u1: "usage c1 False 0 (Replicas_data 0 BCH_DATA_SB) = 8" by blast
  from mark_metadata_frame [OF g1] have "\<not> gc_visited c1 1"
    by (simp add: same_outside_def fs_static_def gc_visited_def fs_of_def)
  with g1 have call1: "bch2_mark_metadata_bucket H0 True ?c 0 0 0 BCH_DATA_SB 8 1 0 = Some c1"
    by (simp add: bch2_mark_metadata_bucket_def)
  show ?thesis unfolding call call1 using u l u1 by (simp add: result_counter_def)
qed

lemma mark_alloc_Some:
  assumes "bch_dev_bkey_exists c dev = Some ca" "uu_bucket ca b gc = Some old"
    "gc \<or> owned \<or> owned_by_allocator old"
  shows "\<exists>c'. uu_bch2_mark_alloc_bucket H c cpu dev b owned gc = Some c'"
  using assms
  by (auto simp: uu_bch2_mark_alloc_bucket_def bucket_data_cmpxchg_def split_def Let_def)

lemma bucket_of_side:
  assumes "side_of c' g = side_of c g"
  shows "bucket_of c' d b g = bucket_of c d b g"
proof -
  from assms have "map (\<lambda>ca. (buckets ca g, dev_usage ca g)) (devs c')
                   = map (\<lambda>ca. (buckets ca g, dev_usage ca g)) (devs c)"
    by (simp add: side_of_def)
  then have "map fst (map (\<lambda>ca. (buckets ca g, dev_usage ca g)) (devs c'))
             = map fst (map (\<lambda>ca. (buckets ca g, dev_usage ca g)) (devs c))"
    by (rule arg_cong)
  then have m: "map (\<lambda>ca. buckets ca g) (devs c') = map (\<lambda>ca. buckets ca g) (devs c)"
    by (simp add: comp_def)
  then have l: "length (devs c') = length (devs c)" by (metis length_map)
  show ?thesis
  proof (cases "d < length (devs c)")
    case True
    from arg_cong [OF m, of "\<lambda>xs. xs ! d"] True l
    have "buckets (devs c' ! d) g = buckets (devs c ! d) g" by simp
    with True l show ?thesis
      by (simp add: bucket_of_def bch_dev_bkey_exists_def uu_bucket_def)
  next
    case False
    with l show ?thesis by (simp add: bucket_of_def bch_dev_bkey_exists_def)
  qed
qed

lemma mark_open_bucket_side:
  assumes dev: "0 < length (devs c)" and sz: "mi_bucket_size (devs c ! 0) = 512"
    and bkt: "bucket_of c 0 b g = Some (open_bucket 0)"
    and off: "unat off div 512 = b"
  shows "\<exists>c' fu'. bch2_mark_pointer H0 c cpu (ptr_of off 0 False 8 es) 8 BCH_DATA_USER fu 0 flags g
                    = Some (c', fu')
           \<and> (\<forall>b' g'. bucket_of c' 0 b' g'
                     = (if b' = b \<and> g' = g then Some (filling_bucket 8) else bucket_of c 0 b' g'))
           \<and> 0 < length (devs c') \<and> mi_bucket_size (devs c' ! 0) = 512"
proof -
  let ?p = "ptr_of off 0 False 8 es"
  let ?ca = "devs c ! 0"
  have d: "ptr_dev (ptr ?p) = 0" by (simp add: ptr_of_def)
  have ex: "bch_dev_bkey_exists c (ptr_dev (ptr ?p)) = Some ?ca"
    using dev by (simp add: bch_dev_bkey_exists_def d)
  have nr: "PTR_BUCKET_NR H0 (mi_bucket_size ?ca) (ptr ?p) = b"
    using off by (simp add: H0_def sz ptr_of_def)
  have ub: "uu_bucket ?ca (PTR_BUCKET_NR H0 (mi_bucket_size ?ca) (ptr ?p)) g = Some (open_bucket 0)"
    using bkt by (simp add: nr bucket_of_Some)
  have fresh: "gen_after (gen (open_bucket 0)) (ptr_gen (ptr ?p)) = 0"
    by (simp add: gen_after_same open_bucket_def ptr_of_def)
  have new: "mark_pointer_new (open_bucket 0) (ptr_cached (ptr ?p)) 8 BCH_DATA_USER 0
             = Some (filling_bucket 8)"
    by (simp add: mark_pointer_new_def checked_add_def filling_bucket_def open_bucket_def
        ptr_of_def)
  have avail: "\<not> bucket_became_unavailable H0 (open_bucket 0) (filling_bucket 8)"
    by (simp add: bucket_became_unavailable_def H0_def filling_bucket_def open_bucket_def)
  let ?r = "bch2_dev_usage_update H0 (set_bucket_mark c 0 b g (filling_bucket 8)) cpu 0 fu
              (open_bucket 0) (filling_bucket 8) g"
  have call: "bch2_mark_pointer H0 c cpu ?p 8 BCH_DATA_USER fu 0 flags g = Some (fst ?r, snd ?r)"
    using ex ub fresh new avail
    by (simp add: bch2_mark_pointer_def Let_def nr d)
  have bs: "bucket_of (fst ?r) 0 b' g'
            = (if b' = b \<and> g' = g then Some (filling_bucket 8) else bucket_of c 0 b' g')" for b' g'
    using bucket_of_set_bucket_mark [OF bkt, of "filling_bucket 8" 0 b' g']
    by (simp add: bucket_of_dev_usage_update)
  have l0: "0 < length (devs (fst ?r))"
    using dev by (simp add: bch2_dev_usage_update_def set_bucket_mark_def Let_def)
  have s: "mi_bucket_size (devs (fst ?r) ! 0) = 512"
    using dev sz by (simp add: bch2_dev_usage_update_def set_bucket_mark_def Let_def)
  show ?thesis
    by (intro exI [of _ "fst ?r"] exI [of _ "snd ?r"] conjI allI call bs l0 s)
qed

lemma mark_user_extent:
  assumes dev: "0 < length (devs c)" and sz: "mi_bucket_size (devs c ! 0) = 512"
    and bkt: "bucket_of c 0 0 g = Some (open_bucket 0)"
  shows "\<exists>c' fu'. uu_bch2_mark_key H0 c cpu user_extent ins 8 fu 0 flags g = Some (c', fu', 0)
           \<and> (\<forall>b' g'. bucket_of c' 0 b' g'
                     = (if b' = 0 \<and> g' = g then Some (filling_bucket 8) else bucket_of c 0 b' g'))
           \<and> 0 < length (devs c') \<and> mi_bucket_size (devs c' ! 0) = 512"
proof -
  let ?p = "ptr_of 0 0 False 8 []"
  have off: "unat (0 :: u64) div 512 = 0" by simp
  have ds: "extent_disk_sectors H0 ?p 8 BCH_DATA_USER = Some 8"
    by (simp add: ptr_of_def extent_disk_sectors_def ptr_disk_sectors_delta_def H0_def
        word_sless_alt)
  from mark_open_bucket_side [OF dev sz bkt off, where cpu = cpu and es = "[]" and fu = fu
      and flags = flags]
  obtain c' fu' where
    mp: "bch2_mark_pointer H0 c cpu ?p 8 BCH_DATA_USER fu 0 flags g = Some (c', fu')"
    and rest: "\<forall>b' g'. bucket_of c' 0 b' g'
                     = (if b' = 0 \<and> g' = g then Some (filling_bucket 8) else bucket_of c 0 b' g')"
      "0 < length (devs c')" "mi_bucket_size (devs c' ! 0) = 512"
    by blast
  have "mark_ptr_stripes H0 c' ?p 8 flags (acc_ec_redundancy acc0) g
        = Some (c', 8, acc_ec_redundancy acc0, 0)"
    by (simp add: mark_ptr_stripes_def ptr_of_def)
  with ds mp have "mark_extent_ptr H0 c cpu ?p 8 BCH_DATA_USER fu 0 flags g acc0
        = Some (c', fu', acc_add_ptr acc0 ?p 8 (acc_ec_redundancy acc0), 0)"
    by (simp add: mark_extent_ptr_def)
  then have "\<exists>fu''. uu_bch2_mark_key H0 c cpu user_extent ins 8 fu 0 flags g = Some (c', fu'', 0)"
    by (simp add: uu_bch2_mark_key_def user_extent_def bch2_mark_extent_def Let_def)
  with rest show ?thesis by blast
qed

lemma user_extent_marks:
  assumes k: "uu_bch2_mark_key H0 c cpu user_extent ins 8 fu 0 flags g = Some (c', fu', ret)"
    and dev: "0 < length (devs c)" and sz: "mi_bucket_size (devs c ! 0) = 512"
    and bkt: "bucket_of c 0 0 g = Some (open_bucket 0)"
  shows "ret = 0"
    and "bucket_of c' 0 b' g'
         = (if b' = 0 \<and> g' = g then Some (filling_bucket 8) else bucket_of c 0 b' g')"
    and "0 < length (devs c')" and "mi_bucket_size (devs c' ! 0) = 512"
  using mark_user_extent [OF dev sz bkt, of cpu ins fu flags] k by auto

lemma set_this_cpu_usage_devs: "devs (set_this_cpu_usage c g cpu fu) = devs c"
  by (simp add: set_this_cpu_usage_def)

lemma bucket_of_set_this_cpu_usage:
  "bucket_of (set_this_cpu_usage c g cpu fu) d b g' = bucket_of c d b g'"
  by (simp add: bucket_of_def bch_dev_bkey_exists_def set_this_cpu_usage_devs)

lemma one_bucket_facts:
  "0 < length (devs one_bucket)" "mi_bucket_size (devs one_bucket ! 0) = 512"
  "bucket_of one_bucket 0 0 g = Some (open_bucket 0)"
  "gc_visited one_bucket 0" "\<not> gc_visited one_bucket 1"
  by (simp_all add: one_bucket_def fs_of_def dev_of_def bucket_of_def bch_dev_bkey_exists_def
      uu_bucket_def gc_visited_def)

lemma key_locked_returns:
  assumes "flags = 0 \<or> flags = BCH_BUCKET_MARK_GC"
  shows "\<exists>c' ret. bch2_mark_key_locked H0 one_bucket 0 user_extent True 8 pos None 0 flags
                   = Some (c', None, ret)"
proof -
  note f = one_bucket_facts
  show ?thesis
  proof (cases "flags = 0")
    case False
    with assms have g: "flags AND BCH_BUCKET_MARK_GC \<noteq> 0"
      by (auto simp: BCH_BUCKET_MARK_GC_def)
    from mark_user_extent [OF f(1) f(2) f(3), where g = True and cpu = 0 and ins = True
        and fu = "usage one_bucket True 0" and flags = flags]
    obtain c2 fu2 where "uu_bch2_mark_key H0 one_bucket 0 user_extent True 8
        (usage one_bucket True 0) 0 flags True = Some (c2, fu2, 0)" by blast
    with g show ?thesis by (simp add: bch2_mark_key_locked_def)
  next
    case True
    from mark_user_extent [OF f(1) f(2) f(3), where g = False and cpu = 0 and ins = True
        and fu = "usage one_bucket False 0" and flags = 0]
    obtain c1 fu1 where l: "uu_bch2_mark_key H0 one_bucket 0 user_extent True 8
        (usage one_bucket False 0) 0 0 False = Some (c1, fu1, 0)"
      and b: "\<And>b' g'. bucket_of c1 0 b' g'
                = (if b' = 0 \<and> g' = False then Some (filling_bucket 8)
                   else bucket_of one_bucket 0 b' g')"
      and d: "0 < length (devs c1)" "mi_bucket_size (devs c1 ! 0) = 512"
      by blast
    let ?cl = "set_this_cpu_usage c1 False 0 fu1"
    have "bucket_of ?cl 0 0 True = Some (open_bucket 0)"
      by (simp add: bucket_of_set_this_cpu_usage b f(3))
    from mark_user_extent [OF _ _ this, where cpu = 0 and ins = True
        and fu = "usage ?cl True 0" and flags = 0] d
    obtain c2 fu2 where "uu_bch2_mark_key H0 ?cl 0 user_extent True 8
        (usage ?cl True 0) 0 0 True = Some (c2, fu2, 0)"
      by (auto simp: set_this_cpu_usage_devs)
    with l True show ?thesis by (simp add: bch2_mark_key_locked_def)
  qed
qed

lemma usage_side: "side_of c' g = side_of c g \<Longrightarrow> usage c' g = usage c g"
  by (simp add: side_of_def)

lemma metadata_counter:
  assumes "uu_bch2_mark_metadata_bucket H c cpu dev b t n g = Some c'"
  shows "usage c' g cpu (Replicas_data 0 t) = usage c g cpu (Replicas_data 0 t) + ucast n"
  using assms
  by (auto simp: uu_bch2_mark_metadata_bucket_def bucket_data_cmpxchg_def split_def Let_def
      set_this_cpu_usage_def counter_add_def bch2_dev_usage_update_def
      dev_usage_counters_replicas split: if_splits Option.bind_splits)

lemma metadata_returns:
  "\<exists>c'. bch2_mark_metadata_bucket H0 True one_bucket 0 0 0 BCH_DATA_SB 8 0 0 = Some c'"
proof -
  note f = one_bucket_facts
  from metadata_sb_example [of False] obtain c1 where
    l: "uu_bch2_mark_metadata_bucket H0 one_bucket 0 0 0 BCH_DATA_SB 8 False = Some c1"
    by (auto simp: one_bucket_def)
  from mark_metadata_frame [OF l] have o: "same_outside False one_bucket c1" .
  then have "side_of c1 True = side_of one_bucket True" by (simp add: same_outside_def)
  from bucket_of_side [OF this, of 0 0] have "bucket_of c1 0 0 True = Some (open_bucket 0)"
    by (simp add: f(3))
  then have dev: "bch_dev_bkey_exists c1 0 = Some (devs c1 ! 0)"
    and bkt: "uu_bucket (devs c1 ! 0) 0 True = Some (open_bucket 0)"
    by (simp_all add: bucket_of_Some bch_dev_bkey_exists_def)
  have add: "checked_add (dirty_sectors (open_bucket 0)) (8 :: u32) = Some 8"
    by (simp add: checked_add_def open_bucket_def)
  have t: "BCH_DATA_SB = BCH_DATA_SB \<or> BCH_DATA_SB = BCH_DATA_JOURNAL" by simp
  from mark_metadata_shard [OF dev bkt add t, where H = H0 and cpu = 0]
  obtain c2 where "uu_bch2_mark_metadata_bucket H0 c1 0 0 0 BCH_DATA_SB 8 True = Some c2"
    by blast
  moreover from same_outside_gc_visited [OF o] f(4) have "gc_visited c1 0" by simp
  ultimately show ?thesis using l by (simp add: bch2_mark_metadata_bucket_def)
qed

lemma alloc_returns:
  "\<exists>c'. bch2_mark_alloc_bucket H0 one_bucket 0 0 0 False 1 0 = Some c'"
proof -
  have "False \<or> False \<or> owned_by_allocator (open_bucket 0)" by (simp add: open_bucket_def)
  from mark_alloc_Some [OF fs_of_dev dev_of_bucket this, where H = H0 and cpu = 0]
  obtain c1 where l: "uu_bch2_mark_alloc_bucket H0 one_bucket 0 0 0 False False = Some c1"
    by (auto simp: one_bucket_def)
  from mark_alloc_frame [OF l] have "same_outside False one_bucket c1" .
  from same_outside_gc_visited [OF this] one_bucket_facts(5) have "\<not> gc_visited c1 1" by simp
  with l show ?thesis by (simp add: bch2_mark_alloc_bucket_def)
qed

text \<open>
  The theorem on a filesystem whose bucket 0 is an open bucket, with GC's cursor at
  position 0. A user extent of 8 sectors into bucket 0 is marked at the visited position 0
  without the GC flag (the live and the GC bucket both take the 8 sectors), at the
  position 1 not yet visited (only the live bucket does), and at position 1 with the GC
  flag (only the GC bucket does). Eight sectors of superblock marked at position 0
  without the flag are counted in the live and in the GC shard; and an open bucket
  released at position 1 without the flag leaves the GC side as it was.
\<close>

theorem marking_passes_witness:
  "result_bucket (bch2_mark_key_locked H0 one_bucket 0 user_extent True 8 0 None 0 0) 0 0 False
     = Some (filling_bucket 8)
   \<and> result_bucket (bch2_mark_key_locked H0 one_bucket 0 user_extent True 8 0 None 0 0) 0 0 True
       = Some (filling_bucket 8)
   \<and> result_bucket (bch2_mark_key_locked H0 one_bucket 0 user_extent True 8 1 None 0 0) 0 0 False
       = Some (filling_bucket 8)
   \<and> result_bucket (bch2_mark_key_locked H0 one_bucket 0 user_extent True 8 1 None 0 0) 0 0 True
       = Some (open_bucket 0)
   \<and> result_bucket (bch2_mark_key_locked H0 one_bucket 0 user_extent True 8 1 None 0
                       BCH_BUCKET_MARK_GC) 0 0 False
       = Some (open_bucket 0)
   \<and> result_bucket (bch2_mark_key_locked H0 one_bucket 0 user_extent True 8 1 None 0
                       BCH_BUCKET_MARK_GC) 0 0 True
       = Some (filling_bucket 8)
   \<and> result_counter (bch2_mark_metadata_bucket H0 True one_bucket 0 0 0 BCH_DATA_SB 8 0 0)
        False 0 (Replicas_data 0 BCH_DATA_SB) = Some 8
   \<and> result_counter (bch2_mark_metadata_bucket H0 True one_bucket 0 0 0 BCH_DATA_SB 8 0 0)
        True 0 (Replicas_data 0 BCH_DATA_SB) = Some 8
   \<and> bch2_mark_alloc_bucket H0 one_bucket 0 0 0 False 1 0 \<noteq> None
   \<and> side_of (the (bch2_mark_alloc_bucket H0 one_bucket 0 0 0 False 1 0)) True
       = side_of one_bucket True"
proof -
  note f = one_bucket_facts
  have gcf: "BCH_BUCKET_MARK_GC AND BCH_BUCKET_MARK_GC \<noteq> 0" "(0 :: u32) AND BCH_BUCKET_MARK_GC = 0"
    by (simp_all add: BCH_BUCKET_MARK_GC_def)
  have key: "result_bucket (bch2_mark_key_locked H0 one_bucket 0 user_extent True 8 pos None 0 flags)
               0 0 False
             = Some (if flags = 0 then filling_bucket 8 else open_bucket 0)
           \<and> result_bucket (bch2_mark_key_locked H0 one_bucket 0 user_extent True 8 pos None 0 flags)
               0 0 True
             = Some (if flags = 0 \<and> pos = 1 then open_bucket 0 else filling_bucket 8)"
    if fl: "flags = 0 \<or> flags = BCH_BUCKET_MARK_GC" and ps: "pos = 0 \<or> pos = 1" for pos flags
  proof -
    from key_locked_returns [OF fl, of pos] obtain c' ret where
      call: "bch2_mark_key_locked H0 one_bucket 0 user_extent True 8 pos None 0 flags
             = Some (c', None, ret)" by blast
    note th = marking_passes [where H = H0 and c = one_bucket and cpu = 0 and k = user_extent
        and inserting = True and sectors' = 8 and pos = pos and fs_usage = None and jseq = 0
        and flags = flags and c''' = c' and fs_usage' = None and ret = ret,
        THEN conjunct2, THEN conjunct2, THEN mp, OF call]
    have "bucket_of c' 0 0 False = Some (if flags = 0 then filling_bucket 8 else open_bucket 0)
          \<and> bucket_of c' 0 0 True
              = Some (if flags = 0 \<and> pos = 1 then open_bucket 0 else filling_bucket 8)"
    proof (cases "flags = 0")
      case False
      with fl have g: "flags AND BCH_BUCKET_MARK_GC \<noteq> 0" "flags \<noteq> 0"
        using gcf by auto
      from th g obtain c2 fu2 where
        s: "side_of c' False = side_of one_bucket False"
        and u: "uu_bch2_mark_key H0 one_bucket 0 user_extent True 8 (usage one_bucket True 0) 0
                  flags True = Some (c2, fu2, ret)"
        and c': "c' = set_this_cpu_usage c2 True 0 fu2"
        by auto
      from bucket_of_side [OF s, of 0 0] have "bucket_of c' 0 0 False = Some (open_bucket 0)"
        by (simp add: f(3))
      moreover from user_extent_marks(2) [OF u f(1) f(2) f(3), of 0 True]
      have "bucket_of c' 0 0 True = Some (filling_bucket 8)"
        by (simp add: c' bucket_of_set_this_cpu_usage)
      ultimately show ?thesis using g by simp
    next
      case True
      with th obtain c1 fu1 ret1 where
        l: "uu_bch2_mark_key H0 one_bucket 0 user_extent True 8 (usage one_bucket False 0) 0 0
              False = Some (c1, fu1, ret1)"
        and st: "side_of (set_this_cpu_usage c1 False 0 fu1) True = side_of one_bucket True"
        and sf: "side_of c' False = side_of (set_this_cpu_usage c1 False 0 fu1) False"
        and rest: "if ret1 = 0 \<and> gc_visited one_bucket pos
                   then \<exists>c2 fu2. uu_bch2_mark_key H0 (set_this_cpu_usage c1 False 0 fu1) 0
                                    user_extent True 8
                                    (usage (set_this_cpu_usage c1 False 0 fu1) True 0) 0 0 True
                                  = Some (c2, fu2, ret)
                          \<and> c' = set_this_cpu_usage c2 True 0 fu2
                   else c' = set_this_cpu_usage c1 False 0 fu1 \<and> ret = ret1"
        using gcf by (auto cong: if_cong)
      let ?cl = "set_this_cpu_usage c1 False 0 fu1"
      note m = user_extent_marks [OF l f(1) f(2) f(3)]
      from bucket_of_side [OF sf, of 0 0] m(2) [of 0 False]
      have live: "bucket_of c' 0 0 False = Some (filling_bucket 8)"
        by (simp add: bucket_of_set_this_cpu_usage)
      from bucket_of_side [OF st, of 0 0] have o: "bucket_of ?cl 0 0 True = Some (open_bucket 0)"
        by (simp add: f(3))
      have gc: "bucket_of c' 0 0 True
                = Some (if pos = 1 then open_bucket 0 else filling_bucket 8)"
      proof (cases "pos = 0")
        case True
        with rest m(1) f(4) obtain c2 fu2 where
          u: "uu_bch2_mark_key H0 ?cl 0 user_extent True 8 (usage ?cl True 0) 0 0 True
              = Some (c2, fu2, ret)"
          and c': "c' = set_this_cpu_usage c2 True 0 fu2"
          by auto
        have d: "0 < length (devs ?cl)" "mi_bucket_size (devs ?cl ! 0) = 512"
          using m(3) m(4) by (simp_all add: set_this_cpu_usage_devs)
        from user_extent_marks(2) [OF u d o, of 0 True] True show ?thesis
          by (simp add: c' bucket_of_set_this_cpu_usage)
      next
        case False
        with ps have p1: "pos = 1" by simp
        with rest f(5) have "c' = ?cl" by simp
        with o p1 show ?thesis by simp
      qed
      from live gc True show ?thesis by simp
    qed
    then show ?thesis by (simp add: call result_bucket_def)
  qed
  from metadata_returns obtain cm where
    mcall: "bch2_mark_metadata_bucket H0 True one_bucket 0 0 0 BCH_DATA_SB 8 0 0 = Some cm"
    by blast
  from marking_passes [where H = H0 and c = one_bucket and cpu = 0 and dev = 0 and b = 0
      and t = BCH_DATA_SB and sectors = 8 and pos = 0 and flags = 0 and c'' = cm,
      THEN conjunct2, THEN conjunct1, THEN mp, OF mcall] gcf f(4)
  obtain c1 where
    ml: "uu_bch2_mark_metadata_bucket H0 one_bucket 0 0 0 BCH_DATA_SB 8 False = Some c1"
    and mt: "side_of c1 True = side_of one_bucket True"
    and mf: "side_of cm False = side_of c1 False"
    and mg: "uu_bch2_mark_metadata_bucket H0 c1 0 0 0 BCH_DATA_SB 8 True = Some cm"
    by auto
  have zero: "usage one_bucket g 0 (Replicas_data 0 BCH_DATA_SB) = 0" for g
    by (simp add: one_bucket_def fs_of_def)
  have md: "usage cm False 0 (Replicas_data 0 BCH_DATA_SB) = 8"
    "usage cm True 0 (Replicas_data 0 BCH_DATA_SB) = 8"
    using metadata_counter [OF ml] metadata_counter [OF mg] usage_side [OF mf] usage_side [OF mt]
    by (simp_all add: zero)
  from alloc_returns obtain ca where
    acall: "bch2_mark_alloc_bucket H0 one_bucket 0 0 0 False 1 0 = Some ca" by blast
  from marking_passes [where H = H0 and c = one_bucket and cpu = 0 and dev = 0 and b = 0
      and owned = False and pos = 1 and flags = 0 and c' = ca,
      THEN conjunct1, THEN mp, OF acall] gcf f(5)
  have al: "side_of ca True = side_of one_bucket True" by auto
  have k0: "(0 :: u32) = 0 \<or> (0 :: u32) = BCH_BUCKET_MARK_GC"
    and k1: "BCH_BUCKET_MARK_GC = 0 \<or> BCH_BUCKET_MARK_GC = BCH_BUCKET_MARK_GC"
    and p0: "(0 :: nat) = 0 \<or> (0 :: nat) = 1" and p1: "(1 :: nat) = 0 \<or> (1 :: nat) = 1"
    and nz: "BCH_BUCKET_MARK_GC \<noteq> 0"
    by (simp_all add: BCH_BUCKET_MARK_GC_def)
  have c1: "result_counter (bch2_mark_metadata_bucket H0 True one_bucket 0 0 0 BCH_DATA_SB 8 0 0)
        False 0 (Replicas_data 0 BCH_DATA_SB) = Some 8"
    and c2: "result_counter (bch2_mark_metadata_bucket H0 True one_bucket 0 0 0 BCH_DATA_SB 8 0 0)
        True 0 (Replicas_data 0 BCH_DATA_SB) = Some 8"
    unfolding mcall result_counter_def using md by simp_all
  have a1: "bch2_mark_alloc_bucket H0 one_bucket 0 0 0 False 1 0 \<noteq> None"
    and a2: "side_of (the (bch2_mark_alloc_bucket H0 one_bucket 0 0 0 False 1 0)) True
       = side_of one_bucket True"
    unfolding acall using al by simp_all
  from key [OF k0 p0] key [OF k0 p1] key [OF k1 p1] nz c1 c2 a1 a2
  show ?thesis by (simp del: One_nat_def)
qed

end
